theory Spec2Isabelle
  imports Complex_Main
begin

section \<open>JavaScript strings\<close>

text \<open>
  A JavaScript string is modelled as a \<open>string\<close>: the list of its code units, each below 256.
  \<open>s.includes(t)\<close> is the substring test.
\<close>

fun startsWith :: "'a list \<Rightarrow> 'a list \<Rightarrow> bool" where
  "startsWith s [] = True"
| "startsWith [] (y # ys) = False"
| "startsWith (x # xs) (y # ys) = (x = y \<and> startsWith xs ys)"

fun jsIncludes :: "'a list \<Rightarrow> 'a list \<Rightarrow> bool" where
  "jsIncludes [] t = (t = [])"
| "jsIncludes (x # xs) t = (startsWith (x # xs) t \<or> jsIncludes xs t)"

text \<open>\<open>String.prototype.trim\<close>: white space and line terminators are removed at both ends.\<close>

definition isWhiteSpace :: "char \<Rightarrow> bool" where
  "isWhiteSpace c = (c \<in> set [CHR 0x09, CHR 0x0A, CHR 0x0B, CHR 0x0C, CHR 0x0D, CHR 0x20, CHR 0xA0])"

definition trim :: "string \<Rightarrow> string" where
  "trim s = rev (dropWhile isWhiteSpace (rev (dropWhile isWhiteSpace s)))"

text \<open>
  The \<open>i\<close> flag of a regular expression without the \<open>u\<close> flag folds the ASCII letters only:
  the expression matches a string exactly when its lower-case form matches the lower-case
  form of the string.
\<close>

definition caseTable :: "(char \<times> char) list" where
  "caseTable =
     [(CHR ''A'', CHR ''a''), (CHR ''B'', CHR ''b''), (CHR ''C'', CHR ''c''), (CHR ''D'', CHR ''d''),
      (CHR ''E'', CHR ''e''), (CHR ''F'', CHR ''f''), (CHR ''G'', CHR ''g''), (CHR ''H'', CHR ''h''),
      (CHR ''I'', CHR ''i''), (CHR ''J'', CHR ''j''), (CHR ''K'', CHR ''k''), (CHR ''L'', CHR ''l''),
      (CHR ''M'', CHR ''m''), (CHR ''N'', CHR ''n''), (CHR ''O'', CHR ''o''), (CHR ''P'', CHR ''p''),
      (CHR ''Q'', CHR ''q''), (CHR ''R'', CHR ''r''), (CHR ''S'', CHR ''s''), (CHR ''T'', CHR ''t''),
      (CHR ''U'', CHR ''u''), (CHR ''V'', CHR ''v''), (CHR ''W'', CHR ''w''), (CHR ''X'', CHR ''x''),
      (CHR ''Y'', CHR ''y''), (CHR ''Z'', CHR ''z'')]"

definition toLower :: "char \<Rightarrow> char" where
  "toLower c = (case map_of caseTable c of Some d \<Rightarrow> d | None \<Rightarrow> c)"

text \<open>The class \<open>[a-z0-9]\<close> on a lower-case string.\<close>

definition isLowerAlnum :: "char \<Rightarrow> bool" where
  "isLowerAlnum c = (c \<in> set ''abcdefghijklmnopqrstuvwxyz0123456789'')"

section \<open>Thrown values and parsed JSON\<close>

datatype js_error = JsError (errName: string) (errMessage: string)

definition TypeError :: js_error where
  "TypeError = JsError ''TypeError'' ''''"

text \<open>
  A number as \<open>JSON.parse\<close> yields it: a finite value (both zeros are \<open>Finite 0\<close>) or an
  infinity (\<open>Infinite True\<close> is the negative one). The program only ever tests a number
  for truthiness.
\<close>

datatype js_number = Finite rat | Infinite bool

datatype json =
    JNull
  | JBool bool
  | JNum js_number
  | JStr string
  | JArr "json list"
  | JObj "(string \<times> json) list"

fun truthy :: "json \<Rightarrow> bool" where
  "truthy JNull = False"
| "truthy (JBool b) = b"
| "truthy (JNum (Finite q)) = (q \<noteq> 0)"
| "truthy (JNum (Infinite s)) = True"
| "truthy (JStr s) = (s \<noteq> [])"
| "truthy (JArr xs) = True"
| "truthy (JObj kvs) = True"

text \<open>
  \<open>v.name\<close> for a parsed value \<open>v\<close> and a name that no prototype defines: \<open>null\<close> throws,
  an object gives its own property, everything else gives \<open>undefined\<close> (\<open>None\<close>).
\<close>

fun getProp :: "json \<Rightarrow> string \<Rightarrow> js_error + json option" where
  "getProp JNull k = Inl TypeError"
| "getProp (JObj kvs) k = Inr (map_of kvs k)"
| "getProp v k = Inr None"

section \<open>The saved state file (lines 20 to 32)\<close>

record artifact =
  cookies :: "json list"
  lightningBaseUrl :: "string option"

definition emptyArtifact :: artifact where
  "emptyArtifact = \<lparr>cookies = [], lightningBaseUrl = None\<rparr>"

text \<open>
  \<open>d.includes('lightning.force.com')\<close> for a truthy parsed value \<open>d\<close>: the substring test on a
  string, membership in an array, and a \<open>TypeError\<close> for a boolean, a number or an object,
  none of which has a callable \<open>includes\<close>.
\<close>

fun callIncludes :: "json \<Rightarrow> string \<Rightarrow> js_error + bool" where
  "callIncludes (JStr s) t = Inr (jsIncludes s t)"
| "callIncludes (JArr xs) t = Inr (JStr t \<in> set xs)"
| "callIncludes v t = Inl TypeError"

text \<open>The arrow function of line 26: \<open>c.domain && c.domain.includes('lightning.force.com')\<close>.\<close>

definition isLightningCookie :: "json \<Rightarrow> js_error + bool" where
  "isLightningCookie c =
     (case getProp c ''domain'' of
        Inl e \<Rightarrow> Inl e
      | Inr None \<Rightarrow> Inr False
      | Inr (Some d) \<Rightarrow> if truthy d then callIncludes d ''lightning.force.com'' else Inr False)"

text \<open>\<open>Array.prototype.find\<close> with a callback that may throw.\<close>

fun findJs :: "('a \<Rightarrow> js_error + bool) \<Rightarrow> 'a list \<Rightarrow> js_error + 'a option" where
  "findJs p [] = Inr None"
| "findJs p (x # xs) =
     (case p x of
        Inl e \<Rightarrow> Inl e
      | Inr True \<Rightarrow> Inr (Some x)
      | Inr False \<Rightarrow> findJs p xs)"

text \<open>
  The template literal of line 27 on the domain of the cookie found. A string stands for
  itself; for an array the runtime's \<open>ToString\<close> is the parameter \<open>toStr\<close>.
\<close>

definition template :: "(json \<Rightarrow> js_error + string) \<Rightarrow> json \<Rightarrow> js_error + string" where
  "template toStr d = (case d of JStr s \<Rightarrow> Inr s | _ \<Rightarrow> toStr d)"

text \<open>Lines 26 and 27: the base URL derived from a cookie list.\<close>

definition deriveEndpoint ::
  "(json \<Rightarrow> js_error + string) \<Rightarrow> json list \<Rightarrow> js_error + string option" where
  "deriveEndpoint toStr cs =
     (case findJs isLightningCookie cs of
        Inl e \<Rightarrow> Inl e
      | Inr None \<Rightarrow> Inr None
      | Inr (Some lightningCookie) \<Rightarrow>
          (case getProp lightningCookie ''domain'' of
             Inl e \<Rightarrow> Inl e
           | Inr None \<Rightarrow> Inr None
           | Inr (Some d) \<Rightarrow>
               if truthy d
               then (case template toStr d of
                       Inl e \<Rightarrow> Inl e
                     | Inr s \<Rightarrow> Inr (Some (''https://'' @ s)))
               else Inr None))"

text \<open>
  Line 25, \<open>data.cookies || []\<close>, followed by the call of \<open>cookies.find\<close>: only an array has
  a callable \<open>find\<close>.
\<close>

definition cookiesOf :: "json \<Rightarrow> js_error + json list" where
  "cookiesOf data =
     (case getProp data ''cookies'' of
        Inl e \<Rightarrow> Inl e
      | Inr None \<Rightarrow> Inr []
      | Inr (Some v) \<Rightarrow>
          if truthy v then (case v of JArr cs \<Rightarrow> Inr cs | _ \<Rightarrow> Inl TypeError) else Inr [])"

text \<open>
  The body of the \<open>try\<close> block, lines 23 to 28. \<open>rd\<close> is the outcome of \<open>readFileSync\<close>,
  \<open>parse\<close> is \<open>JSON.parse\<close>.
\<close>

definition loadStateFile_try ::
  "(string \<Rightarrow> js_error + json) \<Rightarrow> (json \<Rightarrow> js_error + string) \<Rightarrow> js_error + string
     \<Rightarrow> js_error + artifact" where
  "loadStateFile_try parse toStr rd =
     (case rd of
        Inl e \<Rightarrow> Inl e
      | Inr raw \<Rightarrow>
          (case parse raw of
             Inl e \<Rightarrow> Inl e
           | Inr data \<Rightarrow>
               (case cookiesOf data of
                  Inl e \<Rightarrow> Inl e
                | Inr cs \<Rightarrow>
                    (case deriveEndpoint toStr cs of
                       Inl e \<Rightarrow> Inl e
                     | Inr u \<Rightarrow> Inr \<lparr>cookies = cs, lightningBaseUrl = u\<rparr>))))"

text \<open>\<open>loadStateFile\<close> with its \<open>catch\<close> clause, lines 21 to 32.\<close>

definition loadStateFile ::
  "(string \<Rightarrow> js_error + json) \<Rightarrow> (json \<Rightarrow> js_error + string) \<Rightarrow> js_error + string
     \<Rightarrow> js_error + artifact" where
  "loadStateFile parse toStr rd =
     (case loadStateFile_try parse toStr rd of
        Inl e \<Rightarrow> Inr emptyArtifact
      | Inr a \<Rightarrow> Inr a)"

section \<open>The process, its files and the browser\<close>

text \<open>
  An asynchronous computation either returns a value, throws (a rejected promise), or
  never gives control back: \<open>process.exit\<close>, or a promise that is never settled.
\<close>

datatype 'a res = Ok 'a | Throw js_error | NoReturn

text \<open>The arguments of a console call, and what the injected script does to a document.\<close>

datatype arg = S string | N nat | B bool | V js_error

datatype dom_event =
    Focus nat
  | SetValue nat string
  | Dispatch nat string
  | Click nat
  | Submit nat

text \<open>What one evaluation of the injected script gives back: \<open>{ done, message }\<close>.\<close>

record fill_result =
  done' :: bool
  message :: string

text \<open>
  Every interaction of the program with the outside, in the order it happens. An evaluation
  in a frame is the call \<open>Evaluate\<close> followed by its answer \<open>Evaluated\<close>: what the script did to
  the document, and the result or the error that came back.
\<close>

datatype event =
    ConsoleLog "arg list"
  | ConsoleError "arg list"
  | ProcessExit nat
  | Mkdir string
  | Launch "string option"
  | AddCookies "json list"
  | NewPage
  | Goto string string nat
  | Sleep nat
  | Evaluate nat
  | Evaluated nat "dom_event list" "js_error + fill_result"
  | WaitForLoadState string
  | WaitForSelector string "string option" nat
  | Question string
  | StorageState string
  | Close

record world =
  clock :: nat
  trace :: "event list"
  exitCode :: nat
  authDir :: bool
  profileDir :: bool
  stateFile :: "string option"
  contextOpen :: bool

text \<open>
  A document as the injected script sees it: \<open>querySelector\<close> and \<open>closest('form')\<close>, both
  after the DOM events the script has caused so far (a handler of the page may change the
  document). Elements and frames are numbered. The script runs among the page's own
  objects, so each of its DOM calls may throw instead of returning: \<open>throws es c\<close> is the error
  of the call that would cause the event \<open>c\<close> after the events \<open>es\<close>. The usual case is
  \<open>form.submit()\<close> on a form with a control named \<open>submit\<close>: that control shadows the method,
  and the call is a \<open>TypeError\<close>.
\<close>

record document =
  querySelector :: "dom_event list \<Rightarrow> string \<Rightarrow> js_error + nat option"
  closestForm :: "dom_event list \<Rightarrow> nat \<Rightarrow> js_error + nat option"
  throws :: "dom_event list \<Rightarrow> dom_event \<Rightarrow> js_error option"

text \<open>
  The surroundings of one run: the configuration, the library functions the program is
  given, and the answers of the file system, the browser, the web site and the operator.
  Every answer may depend on everything that has happened so far (the \<open>world\<close> holds the
  trace, whose last event is the call being answered).
\<close>

record env =
  SF_USERNAME :: "string option"
  SF_PASSWORD :: "string option"
  HEADED :: bool
  DEBUG :: bool
  projectRoot :: string
  AUTH_DIR :: string
  BROWSER_PROFILE_DIR :: string
  STATE_FILE :: string
  parse :: "string \<Rightarrow> js_error + json"
  toStr :: "json \<Rightarrow> js_error + string"
  latency :: "world \<Rightarrow> nat"
  mkdirFails :: "world \<Rightarrow> js_error option"
  readFails :: "world \<Rightarrow> js_error option"
  launchFails :: "world \<Rightarrow> js_error option"
  addCookiesFails :: "world \<Rightarrow> js_error option"
  hasPage :: "world \<Rightarrow> bool"
  newPageFails :: "world \<Rightarrow> js_error option"
  gotoFails :: "world \<Rightarrow> js_error option"
  pageUrl :: "world \<Rightarrow> string"
  pageFrames :: "world \<Rightarrow> nat list"
  mainFrame :: nat
  frameUrl :: "nat \<Rightarrow> world \<Rightarrow> string"
  frameDocument :: "world \<Rightarrow> js_error + document"
  loadStateFails :: "world \<Rightarrow> js_error option"
  selectorFails :: "world \<Rightarrow> js_error option"
  enterPressed :: "world \<Rightarrow> bool"
  snapshot :: "world \<Rightarrow> js_error + string"

type_synonym 'a io = "world \<Rightarrow> 'a res \<times> world"

definition ret :: "'a \<Rightarrow> 'a io" where
  "ret x w = (Ok x, w)"

definition throwJs :: "js_error \<Rightarrow> 'a io" where
  "throwJs e w = (Throw e, w)"

definition bindIO :: "'a io \<Rightarrow> ('a \<Rightarrow> 'b io) \<Rightarrow> 'b io" where
  "bindIO m f w =
     (case m w of
        (Ok x, w1) \<Rightarrow> f x w1
      | (Throw e, w1) \<Rightarrow> (Throw e, w1)
      | (NoReturn, w1) \<Rightarrow> (NoReturn, w1))"

definition seqIO :: "unit io \<Rightarrow> 'a io \<Rightarrow> 'a io" where
  "seqIO m n = bindIO m (\<lambda>u. n)"

fun steps :: "unit io list \<Rightarrow> unit io" where
  "steps [] = ret ()"
| "steps (m # ms) = seqIO m (steps ms)"

definition whenIO :: "bool \<Rightarrow> unit io \<Rightarrow> unit io" where
  "whenIO b m = (if b then m else ret ())"

text \<open>\<open>try { m } catch (e) { h e }\<close>\<close>

definition tryCatch :: "'a io \<Rightarrow> (js_error \<Rightarrow> 'a io) \<Rightarrow> 'a io" where
  "tryCatch m h w =
     (case m w of
        (Throw e, w1) \<Rightarrow> h e w1
      | (Ok x, w1) \<Rightarrow> (Ok x, w1)
      | (NoReturn, w1) \<Rightarrow> (NoReturn, w1))"

text \<open>\<open>try { m } finally { f }\<close>: \<open>f\<close> runs when \<open>m\<close> returns or throws.\<close>

definition tryFinally :: "'a io \<Rightarrow> unit io \<Rightarrow> 'a io" where
  "tryFinally m f w =
     (case m w of
        (NoReturn, w1) \<Rightarrow> (NoReturn, w1)
      | (r, w1) \<Rightarrow>
          (case f w1 of
             (Ok u, w2) \<Rightarrow> (r, w2)
           | (Throw e, w2) \<Rightarrow> (Throw e, w2)
           | (NoReturn, w2) \<Rightarrow> (NoReturn, w2)))"

text \<open>\<open>promise.catch(() => {})\<close>\<close>

definition swallow :: "unit io \<Rightarrow> unit io" where
  "swallow m = tryCatch m (\<lambda>e. ret ())"

definition liftSum :: "js_error + 'a \<Rightarrow> 'a io" where
  "liftSum r = (case r of Inl e \<Rightarrow> throwJs e | Inr x \<Rightarrow> ret x)"

subsection \<open>Calls to the outside\<close>

definition emit :: "event \<Rightarrow> world \<Rightarrow> world" where
  "emit ev w = w\<lparr>trace := trace w @ [ev]\<rparr>"

text \<open>An awaited call is recorded and takes some time.\<close>

definition call :: "env \<Rightarrow> event \<Rightarrow> world \<Rightarrow> world" where
  "call E ev w = (let w1 = emit ev w in w1\<lparr>clock := clock w1 + latency E w1\<rparr>)"

definition failing :: "(world \<Rightarrow> js_error option) \<Rightarrow> unit io" where
  "failing q w = (case q w of None \<Rightarrow> (Ok (), w) | Some e \<Rightarrow> (Throw e, w))"

definition consoleLog :: "arg list \<Rightarrow> unit io" where
  "consoleLog as w = (Ok (), emit (ConsoleLog as) w)"

definition consoleError :: "arg list \<Rightarrow> unit io" where
  "consoleError as w = (Ok (), emit (ConsoleError as) w)"

text \<open>Line 52, \<open>log\<close>: \<open>DEBUG && console.log('[debug]', ...args)\<close>.\<close>

definition logDebug :: "env \<Rightarrow> arg list \<Rightarrow> unit io" where
  "logDebug E as = whenIO (DEBUG E) (consoleLog (S ''[debug]'' # as))"

text \<open>Line 53, \<open>delay\<close>: the timer fires after at least \<open>ms\<close> milliseconds.\<close>

definition sleep :: "env \<Rightarrow> nat \<Rightarrow> world \<Rightarrow> world" where
  "sleep E ms w = (let w1 = emit (Sleep ms) w in w1\<lparr>clock := clock w1 + ms + latency E w1\<rparr>)"

definition delay :: "env \<Rightarrow> nat \<Rightarrow> unit io" where
  "delay E ms w = (Ok (), sleep E ms w)"

definition processExit :: "nat \<Rightarrow> 'a io" where
  "processExit code w = (NoReturn, (emit (ProcessExit code) w)\<lparr>exitCode := code\<rparr>)"

definition setExitCode :: "nat \<Rightarrow> unit io" where
  "setExitCode code w = (Ok (), w\<lparr>exitCode := code\<rparr>)"

text \<open>
  \<open>readFileSync(STATE_FILE, 'utf8')\<close>: it throws when the file does not exist, and may
  throw when it does.
\<close>

definition readFileSync :: "env \<Rightarrow> world \<Rightarrow> js_error + string" where
  "readFileSync E w =
     (case stateFile w of
        None \<Rightarrow> Inl (JsError ''Error'' ''ENOENT'')
      | Some raw \<Rightarrow> (case readFails E w of Some e \<Rightarrow> Inl e | None \<Rightarrow> Inr raw))"

text \<open>\<open>mkdirSync\<close> with \<open>recursive: true\<close>, for \<open>AUTH_DIR\<close> and for the profile directory in it.\<close>

definition mkdirAuth :: "env \<Rightarrow> unit io" where
  "mkdirAuth E w =
     (let w1 = emit (Mkdir (AUTH_DIR E)) w in
      case mkdirFails E w1 of
        Some e \<Rightarrow> (Throw e, w1)
      | None \<Rightarrow> (Ok (), w1\<lparr>authDir := True\<rparr>))"

definition mkdirProfile :: "env \<Rightarrow> unit io" where
  "mkdirProfile E w =
     (let w1 = emit (Mkdir (BROWSER_PROFILE_DIR E)) w in
      case mkdirFails E w1 of
        Some e \<Rightarrow> (Throw e, w1)
      | None \<Rightarrow> (Ok (), w1\<lparr>authDir := True, profileDir := True\<rparr>))"

definition launchPersistentContext :: "env \<Rightarrow> string option \<Rightarrow> unit io" where
  "launchPersistentContext E channel w =
     (let w1 = call E (Launch channel) w in
      case launchFails E w1 of
        Some e \<Rightarrow> (Throw e, w1)
      | None \<Rightarrow> (Ok (), w1\<lparr>contextOpen := True\<rparr>))"

definition addCookies :: "env \<Rightarrow> json list \<Rightarrow> unit io" where
  "addCookies E cs w = failing (addCookiesFails E) (call E (AddCookies cs) w)"

definition newPage :: "env \<Rightarrow> unit io" where
  "newPage E w = failing (newPageFails E) (call E NewPage w)"

definition goto :: "env \<Rightarrow> string \<Rightarrow> string \<Rightarrow> nat \<Rightarrow> unit io" where
  "goto E url waitUntil timeout w = failing (gotoFails E) (call E (Goto url waitUntil timeout) w)"

definition url :: "env \<Rightarrow> string io" where
  "url E w = (Ok (pageUrl E w), w)"

definition waitForLoadState :: "env \<Rightarrow> string \<Rightarrow> unit io" where
  "waitForLoadState E st w = failing (loadStateFails E) (call E (WaitForLoadState st) w)"

definition waitForSelector :: "env \<Rightarrow> string \<Rightarrow> string option \<Rightarrow> nat \<Rightarrow> unit io" where
  "waitForSelector E sel st timeout w =
     failing (selectorFails E) (call E (WaitForSelector sel st timeout) w)"

text \<open>Lines 34 to 37, \<open>waitForEnter\<close>: settled only when the operator enters a line.\<close>

definition waitForEnter :: "env \<Rightarrow> string \<Rightarrow> unit io" where
  "waitForEnter E msg w =
     (let w1 = call E (Question msg) w in
      if enterPressed E w1 then (Ok (), w1) else (NoReturn, w1))"

text \<open>
  \<open>context.storageState({ path: STATE_FILE })\<close> overwrites the state file; when it is
  rejected, the file is taken to be as it was.
\<close>

definition storageState :: "env \<Rightarrow> unit io" where
  "storageState E w =
     (let w1 = call E (StorageState (STATE_FILE E)) w in
      case snapshot E w1 of
        Inl e \<Rightarrow> (Throw e, w1)
      | Inr s \<Rightarrow> (Ok (), w1\<lparr>stateFile := Some s\<rparr>))"

text \<open>\<open>context.close()\<close>, which is taken to succeed.\<close>

definition close :: "env \<Rightarrow> unit io" where
  "close E w = (Ok (), (call E Close w)\<lparr>contextOpen := False\<rparr>)"

section \<open>Filling the login form (lines 164 to 254)\<close>

text \<open>
  \<open>find(a) || find(b) || ...\<close>: the first selector that finds an element; the selectors
  after it are not tried, and a call that throws ends the chain.
\<close>

fun firstOf :: "(string \<Rightarrow> js_error + nat option) \<Rightarrow> string list \<Rightarrow> js_error + nat option" where
  "firstOf q [] = Inr None"
| "firstOf q (sel # sels) =
     (case q sel of
        Inl e \<Rightarrow> Inl e
      | Inr (Some el) \<Rightarrow> Inr (Some el)
      | Inr None \<Rightarrow> firstOf q sels)"

definition usernameSelectors :: "string list" where
  \<open>usernameSelectors =
     [''input#username'', ''input[name="username"]'', ''input.username'', ''input[type="email"]'']\<close>

definition passwordSelectors :: "string list" where
  \<open>passwordSelectors = [''input#password'', ''input[name="pw"]'', ''input[type="password"]'']\<close>

definition buttonSelectors :: "string list" where
  \<open>buttonSelectors =
     [''input#Login'', ''input[name="Login"]'', ''button[type="submit"]'', ''input[type="submit"]'']\<close>

definition formSelectors :: "string list" where
  \<open>formSelectors = [''form#login_form'', ''form[name="login"]'']\<close>

text \<open>Lines 173 to 180: both fields are focused and set, and the page is notified.\<close>

definition fillEvents :: "nat \<Rightarrow> nat \<Rightarrow> string \<Rightarrow> string \<Rightarrow> dom_event list" where
  "fillEvents u p username password =
     [Focus u, SetValue u username, Dispatch u ''input'', Dispatch u ''change'',
      Focus p, SetValue p password, Dispatch p ''input'', Dispatch p ''change'']"

text \<open>
  DOM calls made one after the other, after the events \<open>es\<close>: the first call that throws
  ends them, and the events caused before it stay.
\<close>

fun perform :: "document \<Rightarrow> dom_event list \<Rightarrow> dom_event list \<Rightarrow> js_error option \<times> dom_event list" where
  "perform doc es [] = (None, es)"
| "perform doc es (c # cs) =
     (case throws doc es c of
        Some e \<Rightarrow> (Some e, es)
      | None \<Rightarrow> perform doc (es @ [c]) cs)"

text \<open>
  The function evaluated inside the frame, lines 168 to 192: what it returns or throws, and
  the DOM events it has caused by then. Both fields are looked up before either is tested
  (lines 170 to 172); line 188 calls \<open>form.submit()\<close>.
\<close>

definition pageFunction ::
  "document \<Rightarrow> string \<Rightarrow> string \<Rightarrow> (js_error + fill_result) \<times> dom_event list" where
  "pageFunction doc username password =
     (case firstOf (querySelector doc []) usernameSelectors of
        Inl e \<Rightarrow> (Inl e, [])
      | Inr u \<Rightarrow>
          (case firstOf (querySelector doc []) passwordSelectors of
             Inl e \<Rightarrow> (Inl e, [])
           | Inr p \<Rightarrow>
               (case (u, p) of
                  (None, p) \<Rightarrow> (Inr \<lparr>done' = False, message = ''no username field''\<rparr>, [])
                | (Some u, None) \<Rightarrow> (Inr \<lparr>done' = False, message = ''no password field''\<rparr>, [])
                | (Some u, Some p) \<Rightarrow>
                    (case perform doc [] (fillEvents u p username password) of
                       (Some e, es) \<Rightarrow> (Inl e, es)
                     | (None, es) \<Rightarrow>
                         (case firstOf (querySelector doc es) buttonSelectors of
                            Inl e \<Rightarrow> (Inl e, es)
                          | Inr (Some btn) \<Rightarrow>
                              (case throws doc es (Click btn) of
                                 Some e \<Rightarrow> (Inl e, es)
                               | None \<Rightarrow>
                                   (Inr \<lparr>done' = True, message = ''submitted''\<rparr>, es @ [Click btn]))
                          | Inr None \<Rightarrow>
                              (case (case firstOf (querySelector doc es) formSelectors of
                                       Inl e \<Rightarrow> Inl e
                                     | Inr (Some form) \<Rightarrow> Inr (Some form)
                                     | Inr None \<Rightarrow> closestForm doc es u) of
                                 Inl e \<Rightarrow> (Inl e, es)
                               | Inr (Some form) \<Rightarrow>
                                   (case throws doc es (Submit form) of
                                      Some e \<Rightarrow> (Inl e, es)
                                    | None \<Rightarrow>
                                        (Inr \<lparr>done' = True, message = ''form submitted''\<rparr>,
                                         es @ [Submit form]))
                               | Inr None \<Rightarrow>
                                   (Inr \<lparr>done' = True, message = ''filled, no button''\<rparr>, es)))))))"

text \<open>
  Lines 166 to 195, \<open>fillLoginInFrame\<close>: one attempt in one frame. \<open>frame.evaluate\<close> is
  rejected when the script cannot be run in the frame, and when the script throws.
\<close>

definition fillLoginInFrame :: "env \<Rightarrow> nat \<Rightarrow> string \<Rightarrow> string \<Rightarrow> fill_result io" where
  "fillLoginInFrame E frame user pass w =
     (let w1 = call E (Evaluate frame) w in
      case frameDocument E w1 of
        Inl e \<Rightarrow> (Throw e, emit (Evaluated frame [] (Inl e)) w1)
      | Inr doc \<Rightarrow>
          (case pageFunction doc user pass of
             (Inl e, es) \<Rightarrow> (Throw e, emit (Evaluated frame es (Inl e)) w1)
           | (Inr result, es) \<Rightarrow> (Ok result, emit (Evaluated frame es (Inr result)) w1)))"

text \<open>
  One round of the loop of \<open>waitAndFillFrame\<close>, lines 201 to 207: \<open>Some result\<close> when the
  function returns from inside the \<open>try\<close> block.
\<close>

definition waitAndFillFrame_try :: "env \<Rightarrow> nat \<Rightarrow> string \<Rightarrow> string \<Rightarrow> fill_result option io" where
  "waitAndFillFrame_try E frame user pass =
     tryCatch
       (bindIO (fillLoginInFrame E frame user pass) (\<lambda>result.
          if done' result then ret (Some result)
          else seqIO (logDebug E [S ''Form not ready:'', S (message result)]) (ret None)))
       (\<lambda>e. seqIO (logDebug E [S ''Frame evaluate error:'', S (errMessage e)]) (ret None))"

subsection \<open>The clock never runs backwards\<close>

definition later :: "'a io \<Rightarrow> bool" where
  "later m = (\<forall>w. clock w \<le> clock (snd (m w)))"

lemma laterI: "(\<And>w. clock w \<le> clock (snd (m w))) \<Longrightarrow> later m"
  by (simp add: later_def)

lemma laterD: "later m \<Longrightarrow> m w = (r, w1) \<Longrightarrow> clock w \<le> clock w1"
  by (metis later_def snd_conv)

lemma later_ret: "later (ret x)"
  by (simp add: later_def ret_def)

lemma later_throwJs: "later (throwJs e)"
  by (simp add: later_def throwJs_def)

lemma later_bindIO: "later m \<Longrightarrow> (\<And>x. later (f x)) \<Longrightarrow> later (bindIO m f)"
proof (rule laterI)
  fix w
  assume m: "later m" and f: "\<And>x. later (f x)"
  obtain r w1 where mw: "m w = (r, w1)" by (cases "m w")
  have le1: "clock w \<le> clock w1" using laterD [OF m mw] .
  show "clock w \<le> clock (snd (bindIO m f w))"
  proof (cases r)
    case (Ok x)
    obtain r2 w2 where fw: "f x w1 = (r2, w2)" by (cases "f x w1")
    have "clock w1 \<le> clock w2" using laterD [OF f fw] .
    with le1 mw Ok fw show ?thesis by (simp add: bindIO_def)
  next
    case (Throw e)
    with le1 mw show ?thesis by (simp add: bindIO_def)
  next
    case NoReturn
    with le1 mw show ?thesis by (simp add: bindIO_def)
  qed
qed

lemma later_seqIO: "later m \<Longrightarrow> later n \<Longrightarrow> later (seqIO m n)"
  by (simp add: seqIO_def later_bindIO)

lemma later_tryCatch: "later m \<Longrightarrow> (\<And>e. later (h e)) \<Longrightarrow> later (tryCatch m h)"
proof (rule laterI)
  fix w
  assume m: "later m" and h: "\<And>e. later (h e)"
  obtain r w1 where mw: "m w = (r, w1)" by (cases "m w")
  have le1: "clock w \<le> clock w1" using laterD [OF m mw] .
  show "clock w \<le> clock (snd (tryCatch m h w))"
  proof (cases r)
    case (Throw e)
    obtain r2 w2 where hw: "h e w1 = (r2, w2)" by (cases "h e w1")
    have "clock w1 \<le> clock w2" using laterD [OF h hw] .
    with le1 mw Throw hw show ?thesis by (simp add: tryCatch_def)
  next
    case (Ok x)
    with le1 mw show ?thesis by (simp add: tryCatch_def)
  next
    case NoReturn
    with le1 mw show ?thesis by (simp add: tryCatch_def)
  qed
qed

lemma later_whenIO: "later m \<Longrightarrow> later (whenIO b m)"
  by (simp add: whenIO_def later_ret)

lemma clock_emit: "clock (emit ev w) = clock w"
  by (simp add: emit_def)

lemma clock_call: "clock w \<le> clock (call E ev w)"
  by (simp add: call_def Let_def clock_emit)

lemma clock_sleep: "clock w + ms \<le> clock (sleep E ms w)"
  by (simp add: sleep_def Let_def clock_emit)

lemma later_consoleLog: "later (consoleLog as)"
  by (simp add: later_def consoleLog_def clock_emit)

lemma later_logDebug: "later (logDebug E as)"
  by (simp add: logDebug_def later_whenIO later_consoleLog)

lemma later_delay: "later (delay E ms)"
proof (rule laterI)
  fix w
  have "clock w + ms \<le> clock (sleep E ms w)" by (rule clock_sleep)
  then show "clock w \<le> clock (snd (delay E ms w))" by (simp add: delay_def)
qed

lemma later_failing_call: "later (\<lambda>w. failing q (call E ev w))"
proof (rule laterI)
  fix w
  have "clock w \<le> clock (call E ev w)" by (rule clock_call)
  then show "clock w \<le> clock (snd (failing q (call E ev w)))"
    by (simp add: failing_def split: option.split)
qed

lemma later_fillLoginInFrame: "later (fillLoginInFrame E frame user pass)"
proof (rule laterI)
  fix w
  have "clock w \<le> clock (call E (Evaluate frame) w)" by (rule clock_call)
  then show "clock w \<le> clock (snd (fillLoginInFrame E frame user pass w))"
    by (simp add: fillLoginInFrame_def Let_def clock_emit split: sum.split prod.split)
qed

lemma later_waitAndFillFrame_try: "later (waitAndFillFrame_try E frame user pass)"
  unfolding waitAndFillFrame_try_def
  by (intro later_tryCatch later_bindIO later_fillLoginInFrame later_seqIO later_logDebug later_ret)
     (simp add: later_seqIO later_logDebug later_ret)

subsection \<open>The polling loops\<close>

text \<open>
  Lines 198 to 211, \<open>waitAndFillFrame\<close>: the attempt is repeated every 500 ms until it is
  done or \<open>maxWaitMs\<close> have passed since \<open>start\<close>.
\<close>

function waitAndFillFrame_loop ::
  "env \<Rightarrow> nat \<Rightarrow> string \<Rightarrow> string \<Rightarrow> nat \<Rightarrow> nat \<Rightarrow> fill_result io" where
  "waitAndFillFrame_loop E frame user pass maxWaitMs start w =
     (if clock w - start < maxWaitMs then
        (case waitAndFillFrame_try E frame user pass w of
           (Ok (Some result), w1) \<Rightarrow> (Ok result, w1)
         | (Ok None, w1) \<Rightarrow>
             waitAndFillFrame_loop E frame user pass maxWaitMs start (sleep E 500 w1)
         | (Throw e, w1) \<Rightarrow> (Throw e, w1)
         | (NoReturn, w1) \<Rightarrow> (NoReturn, w1))
      else (Ok \<lparr>done' = False, message = ''timeout''\<rparr>, w))"
  by pat_completeness auto

termination
proof (relation "measure (\<lambda>(E, frame, user, pass, maxWaitMs, start, w). start + maxWaitMs - clock w)")
  show "wf (measure (\<lambda>(E, frame, user, pass, maxWaitMs, start, w). start + maxWaitMs - clock w))"
    by simp
next
  fix E :: env and frame :: nat and user pass :: string and maxWaitMs start :: nat
    and w w1 :: world and x :: "fill_result option res" and y :: "fill_result option"
  assume run: "clock w - start < maxWaitMs"
    and att: "(x, w1) = waitAndFillFrame_try E frame user pass w"
  have "clock w \<le> clock w1"
    using laterD [OF later_waitAndFillFrame_try att [symmetric]] .
  moreover have "clock w1 + 500 \<le> clock (sleep E 500 w1)" by (rule clock_sleep)
  ultimately show "((E, frame, user, pass, maxWaitMs, start, sleep E 500 w1),
                    (E, frame, user, pass, maxWaitMs, start, w))
      \<in> measure (\<lambda>(E, frame, user, pass, maxWaitMs, start, w). start + maxWaitMs - clock w)"
    using run by simp
qed

declare waitAndFillFrame_loop.simps [simp del]

definition waitAndFillFrame :: "env \<Rightarrow> nat \<Rightarrow> string \<Rightarrow> string \<Rightarrow> nat \<Rightarrow> fill_result io" where
  "waitAndFillFrame E frame user pass maxWaitMs w =
     waitAndFillFrame_loop E frame user pass maxWaitMs (clock w) w"

lemma later_waitAndFillFrame_loop: "later (waitAndFillFrame_loop E frame user pass maxWaitMs start)"
proof (rule laterI)
  fix w
  show "clock w \<le> clock (snd (waitAndFillFrame_loop E frame user pass maxWaitMs start w))"
  proof (induction E frame user pass maxWaitMs start w rule: waitAndFillFrame_loop.induct)
    case (1 E frame user pass maxWaitMs start w)
    obtain x w1 where att: "waitAndFillFrame_try E frame user pass w = (x, w1)"
      by (cases "waitAndFillFrame_try E frame user pass w")
    have le1: "clock w \<le> clock w1"
      using laterD [OF later_waitAndFillFrame_try att] .
    have le2: "clock w1 \<le> clock (sleep E 500 w1)"
      using clock_sleep [of w1 500 E] by simp
    show ?case
    proof (cases "clock w - start < maxWaitMs")
      case False
      then show ?thesis
        by (simp add: waitAndFillFrame_loop.simps [of E frame user pass maxWaitMs start w])
    next
      case True
      show ?thesis
      proof (cases x)
        case (Ok y)
        show ?thesis
        proof (cases y)
          case None
          have "clock (sleep E 500 w1)
              \<le> clock (snd (waitAndFillFrame_loop E frame user pass maxWaitMs start (sleep E 500 w1)))"
            using "1.IH" [OF True att [symmetric]] Ok None by simp
          with le1 le2 True att Ok None show ?thesis
            by (simp add: waitAndFillFrame_loop.simps [of E frame user pass maxWaitMs start w])
        next
          case (Some result)
          with le1 True att Ok show ?thesis
            by (simp add: waitAndFillFrame_loop.simps [of E frame user pass maxWaitMs start w])
        qed
      next
        case (Throw e)
        with le1 True att show ?thesis
          by (simp add: waitAndFillFrame_loop.simps [of E frame user pass maxWaitMs start w])
      next
        case NoReturn
        with le1 True att show ?thesis
          by (simp add: waitAndFillFrame_loop.simps [of E frame user pass maxWaitMs start w])
      qed
    qed
  qed
qed

lemma later_waitAndFillFrame: "later (waitAndFillFrame E frame user pass maxWaitMs)"
proof (rule laterI)
  fix w
  show "clock w \<le> clock (snd (waitAndFillFrame E frame user pass maxWaitMs w))"
    using later_waitAndFillFrame_loop [of E frame user pass maxWaitMs "clock w"]
    by (simp add: waitAndFillFrame_def later_def)
qed

text \<open>Line 218: the first frame whose URL contains the marker.\<close>

definition sessionFrameOf :: "env \<Rightarrow> world \<Rightarrow> nat option" where
  "sessionFrameOf E w = find (\<lambda>f. jsIncludes (frameUrl E f w) ''sessionserver'') (pageFrames E w)"

definition fillSessionFrame :: "env \<Rightarrow> nat \<Rightarrow> string \<Rightarrow> string \<Rightarrow> fill_result io" where
  "fillSessionFrame E sessionFrame username password =
     seqIO (logDebug E [S ''Found sessionserver frame, filling via JS...''])
       (waitAndFillFrame E sessionFrame username password 20000)"

lemma later_fillSessionFrame: "later (fillSessionFrame E sessionFrame username password)"
  by (simp add: fillSessionFrame_def later_seqIO later_logDebug later_waitAndFillFrame)

text \<open>
  Pass 1, lines 215 to 229: every 800 ms, for at most \<open>maxWait\<close> after \<open>pollStart\<close>, look
  for the session frame and fill it. The result is \<open>loginFilled\<close>.
\<close>

function sessionFramePass :: "env \<Rightarrow> string \<Rightarrow> string \<Rightarrow> nat \<Rightarrow> nat \<Rightarrow> bool io" where
  "sessionFramePass E username password maxWait pollStart w =
     (if clock w - pollStart < maxWait then
        (case sessionFrameOf E w of
           Some sessionFrame \<Rightarrow>
             (case fillSessionFrame E sessionFrame username password w of
                (Ok result, w1) \<Rightarrow>
                  if done' result
                  then seqIO (logDebug E [S ''Login filled in sessionserver iframe:'',
                                          S (message result)])
                         (ret True) w1
                  else sessionFramePass E username password maxWait pollStart (sleep E 800 w1)
              | (Throw e, w1) \<Rightarrow> (Throw e, w1)
              | (NoReturn, w1) \<Rightarrow> (NoReturn, w1))
         | None \<Rightarrow> sessionFramePass E username password maxWait pollStart (sleep E 800 w))
      else (Ok False, w))"
  by pat_completeness auto

termination
proof (relation "measure (\<lambda>(E, username, password, maxWait, pollStart, w). pollStart + maxWait - clock w)")
  show "wf (measure (\<lambda>(E, username, password, maxWait, pollStart, w). pollStart + maxWait - clock w))"
    by simp
next
  fix E :: env and username password :: string and maxWait pollStart :: nat and w :: world
  assume run: "clock w - pollStart < maxWait"
  have "clock w + 800 \<le> clock (sleep E 800 w)" by (rule clock_sleep)
  then show "((E, username, password, maxWait, pollStart, sleep E 800 w),
              (E, username, password, maxWait, pollStart, w))
      \<in> measure (\<lambda>(E, username, password, maxWait, pollStart, w). pollStart + maxWait - clock w)"
    using run by simp
next
  fix E :: env and username password :: string and maxWait pollStart :: nat and w w1 :: world
    and sessionFrame :: nat and x :: "fill_result res" and result :: fill_result
  assume run: "clock w - pollStart < maxWait"
    and fill: "(x, w1) = fillSessionFrame E sessionFrame username password w"
  have "clock w \<le> clock w1"
    using laterD [OF later_fillSessionFrame fill [symmetric]] .
  moreover have "clock w1 + 800 \<le> clock (sleep E 800 w1)" by (rule clock_sleep)
  ultimately show "((E, username, password, maxWait, pollStart, sleep E 800 w1),
                    (E, username, password, maxWait, pollStart, w))
      \<in> measure (\<lambda>(E, username, password, maxWait, pollStart, w). pollStart + maxWait - clock w)"
    using run by simp
qed

declare sessionFramePass.simps [simp del]

text \<open>Pass 2, lines 232 to 239: the main frame.\<close>

definition mainFramePass :: "env \<Rightarrow> string \<Rightarrow> string \<Rightarrow> bool io" where
  "mainFramePass E username password =
     seqIO (logDebug E [S ''Trying main frame...''])
       (bindIO (waitAndFillFrame E (mainFrame E) username password 15000) (\<lambda>result.
          if done' result
          then seqIO (logDebug E [S ''Login filled in main frame:'', S (message result)]) (ret True)
          else ret False))"

text \<open>
  Pass 3, lines 244 to 252: the loop over \<open>frames\<close>, the frames of the page when the pass
  starts.
\<close>

fun otherFramesPass :: "env \<Rightarrow> string \<Rightarrow> string \<Rightarrow> nat list \<Rightarrow> bool io" where
  "otherFramesPass E username password [] w = (Ok False, w)"
| "otherFramesPass E username password (frame # frames) w =
     (if frame = mainFrame E \<or> jsIncludes (frameUrl E frame w) ''sessionserver''
      then otherFramesPass E username password frames w
      else (case waitAndFillFrame E frame username password 8000 w of
              (Ok result, w1) \<Rightarrow>
                if done' result
                then seqIO (logDebug E [S ''Login filled in frame:'', S (message result)])
                       (ret True) w1
                else otherFramesPass E username password frames w1
            | (Throw e, w1) \<Rightarrow> (Throw e, w1)
            | (NoReturn, w1) \<Rightarrow> (NoReturn, w1)))"

text \<open>Lines 213 to 253: the three passes. The result is \<open>loginFilled\<close>.\<close>

definition fillLogin :: "env \<Rightarrow> string \<Rightarrow> string \<Rightarrow> bool io" where
  "fillLogin E username password =
     seqIO (consoleLog [S ''Entering credentials in UI: username'', S username,
                        S ''password'', S password])
       (bindIO (\<lambda>w. sessionFramePass E username password 35000 (clock w) w) (\<lambda>filled1.
          bindIO (if \<not> filled1 then mainFramePass E username password else ret filled1)
            (\<lambda>filled2.
               if \<not> filled2 then (\<lambda>w. otherFramesPass E username password (pageFrames E w) w)
               else ret filled2)))"

section \<open>Is the session still valid? (lines 125 to 162)\<close>

definition SALESFORCE_URL :: string where
  "SALESFORCE_URL = ''https://test.salesforce.com/''"

definition SALESFORCE_HOME_URL :: string where
  "SALESFORCE_HOME_URL = ''https://test.salesforce.com/lightning/page/home''"

text \<open>Lines 133 and 143: the classification used when a state file exists.\<close>

definition isLoggedInSaved :: "string \<Rightarrow> bool" where
  "isLoggedInSaved currentUrl =
     (\<not> jsIncludes currentUrl ''login''
      \<and> (jsIncludes currentUrl ''lightning'' \<or> jsIncludes currentUrl ''my.salesforce.com''))"

text \<open>
  The last alternative of the regular expression of line 155, \<open>salesforce\.com\/[a-z0-9]{15}\<close>,
  matched anywhere in a lower-case string.
\<close>

fun sessionIdPath :: "string \<Rightarrow> bool" where
  "sessionIdPath [] = False"
| "sessionIdPath (c # cs) =
     ((startsWith (c # cs) ''salesforce.com/''
       \<and> 15 \<le> length (takeWhile isLowerAlnum (drop 15 (c # cs))))
      \<or> sessionIdPath cs)"

text \<open>
  The regular expression of line 155,
  \<open>/lightning|home\.jsp|\.com\/home|Setup|secur\/frontdoor|salesforce\.com\/[a-z0-9]{15}/i\<close>,
  on the lower-case form \<open>l\<close> of the URL.
\<close>

definition urlPatternLower :: "string \<Rightarrow> bool" where
  "urlPatternLower l =
     (jsIncludes l ''lightning'' \<or> jsIncludes l ''home.jsp'' \<or> jsIncludes l ''.com/home''
      \<or> jsIncludes l ''setup'' \<or> jsIncludes l ''secur/frontdoor'' \<or> sessionIdPath l)"

definition urlPattern :: "string \<Rightarrow> bool" where
  "urlPattern currentUrl = urlPatternLower (map toLower currentUrl)"

text \<open>Lines 155 and 156: the classification on the login page.\<close>

definition isLoggedInLogin :: "string \<Rightarrow> bool" where
  "isLoggedInLogin currentUrl =
     (urlPattern currentUrl
      \<or> (jsIncludes currentUrl ''salesforce.com'' \<and> \<not> jsIncludes currentUrl ''/login''
         \<and> currentUrl \<noteq> SALESFORCE_URL))"

text \<open>Lines 126 to 137: the dashboard on the domain taken from the saved cookies.\<close>

definition dashboardProbe :: "env \<Rightarrow> string \<Rightarrow> bool io" where
  "dashboardProbe E base =
     (let dashboardUrl = base @ ''/lightning/page/home'' in
      seqIO (consoleLog [S ''Loading saved session and opening dashboard...''])
     (seqIO (logDebug E [S ''Dashboard URL from state:'', S dashboardUrl])
     (seqIO (swallow (goto E dashboardUrl ''domcontentloaded'' 30000))
     (seqIO (delay E 3000)
     (bindIO (url E) (\<lambda>currentUrl.
        let isLoggedInUrl = isLoggedInSaved currentUrl in
        seqIO (logDebug E [S ''URL after loading saved state:'', S currentUrl,
                           S ''isLoggedInUrl:'', B isLoggedInUrl])
       (seqIO (whenIO isLoggedInUrl (consoleLog [S ''Already logged in. Dashboard opened.'']))
       (ret isLoggedInUrl))))))))"

text \<open>Lines 139 to 146: a state file without a Lightning URL.\<close>

definition entryProbe :: "env \<Rightarrow> bool io" where
  "entryProbe E =
     seqIO (swallow (goto E SALESFORCE_URL ''domcontentloaded'' 30000))
    (seqIO (delay E 3000)
    (bindIO (url E) (\<lambda>currentUrl.
       let isLoggedInUrl = isLoggedInSaved currentUrl in
       seqIO (whenIO isLoggedInUrl (consoleLog [S ''Already logged in.'']))
      (ret isLoggedInUrl))))"

text \<open>
  Lines 125 to 147. The first condition is
  \<open>hasSavedState && savedStateData && savedStateData.lightningBaseUrl\<close>.
\<close>

definition savedProbe :: "env \<Rightarrow> bool \<Rightarrow> artifact option \<Rightarrow> bool io" where
  "savedProbe E hasSavedState savedStateData =
     (case (if hasSavedState
            then (case savedStateData of
                    Some a \<Rightarrow> (case lightningBaseUrl a of
                                 Some base \<Rightarrow> if base \<noteq> [] then Some base else None
                               | None \<Rightarrow> None)
                  | None \<Rightarrow> None)
            else None) of
        Some base \<Rightarrow> dashboardProbe E base
      | None \<Rightarrow> if hasSavedState then entryProbe E else ret False)"

text \<open>Lines 150 to 161: the login page.\<close>

definition loginPageProbe :: "env \<Rightarrow> bool io" where
  "loginPageProbe E =
     seqIO (goto E SALESFORCE_URL ''load'' 60000)
    (bindIO (url E) (\<lambda>urlAfterGoto.
     seqIO (logDebug E [S ''URL after goto:'', S urlAfterGoto])
    (seqIO (delay E 5000)
    (bindIO (url E) (\<lambda>currentUrl.
       let isLoggedInUrl = isLoggedInLogin currentUrl in
       seqIO (logDebug E [S ''URL after wait:'', S currentUrl, S ''isLoggedInUrl:'', B isLoggedInUrl])
      (seqIO (whenIO isLoggedInUrl
                (seqIO (consoleLog [S ''Already logged in. Opening dashboard...''])
                       (swallow (goto E SALESFORCE_HOME_URL ''domcontentloaded'' 30000))))
      (ret isLoggedInUrl)))))))"

text \<open>Lines 125 to 162: the value of \<open>isLoggedInUrl\<close> at line 164.\<close>

definition probe :: "env \<Rightarrow> bool \<Rightarrow> artifact option \<Rightarrow> bool io" where
  "probe E hasSavedState savedStateData =
     bindIO (savedProbe E hasSavedState savedStateData) (\<lambda>isLoggedInUrl.
       if \<not> isLoggedInUrl then loginPageProbe E else ret isLoggedInUrl)"

section \<open>After the login attempt (lines 256 to 288)\<close>

definition otpSelectors :: string where
  \<open>otpSelectors =
     ''input[id*="otp"], input[name*="otp"], input[placeholder*="code"], #emc, #tlkp_verify, .verify-identity, #smc''\<close>

definition postLoginSelectors :: string where
  \<open>postLoginSelectors =
     ''div[id="content"], [data-aura-rendered-by], .slds-global-header, #phHeader, .slds-page-header''\<close>

text \<open>Lines 257 to 278: wait for the page after the login, then save the session.\<close>

definition persistSession :: "env \<Rightarrow> unit io" where
  "persistSession E =
     seqIO (consoleLog [S ''Credentials entered from .env. Waiting for next page...''])
    (seqIO (waitForLoadState E ''domcontentloaded'')
    (bindIO (tryCatch (seqIO (waitForSelector E otpSelectors (Some ''visible'') 3000) (ret True))
                      (\<lambda>e. ret False)) (\<lambda>otpVisible.
     seqIO (whenIO otpVisible
              (consoleLog [S ''OTP/verification detected. Enter the code in the browser.'']))
    (seqIO (if HEADED E
            then steps
              [consoleLog [S []],
               consoleLog [S ''>>> Complete OTP in the browser if asked. When you see the Salesforce dashboard, press Enter to SAVE session. <<<''],
               consoleLog [S []],
               waitForEnter E ''Press Enter when you see the Salesforce dashboard (to save session for next run)...'']
            else swallow (waitForSelector E postLoginSelectors None 120000))
    (seqIO (storageState E)
           (consoleLog [S ''Session saved to'', S (STATE_FILE E)]))))))"

text \<open>Lines 279 to 284: no form was filled although the URL did not look logged in.\<close>

definition formNotFound :: "env \<Rightarrow> unit io" where
  "formNotFound E =
     seqIO (whenIO (DEBUG E)
              (bindIO (url E) (\<lambda>currentUrl.
                 consoleLog [S ''[debug] Login form not detected after checking all frames. URL:'',
                             S currentUrl])))
           (consoleLog [S ''Already logged in (session from cookies).''])"

definition finish :: "env \<Rightarrow> bool \<Rightarrow> bool \<Rightarrow> unit io" where
  "finish E loginFilled isLoggedInUrl =
     seqIO (if loginFilled then persistSession E
            else if \<not> isLoggedInUrl then formNotFound E
            else ret ())
           (whenIO (HEADED E) (waitForEnter E ''Press Enter to close the browser...''))"

section \<open>The whole run (lines 55 to 297)\<close>

text \<open>Lines 122 to 288, the body of the \<open>try\<close> block.\<close>

definition flow :: "env \<Rightarrow> string \<Rightarrow> string \<Rightarrow> bool \<Rightarrow> artifact option \<Rightarrow> unit io" where
  "flow E username password hasSavedState savedStateData =
     bindIO (probe E hasSavedState savedStateData) (\<lambda>isLoggedInUrl.
     bindIO (if \<not> isLoggedInUrl then fillLogin E username password else ret False) (\<lambda>loginFilled.
     finish E loginFilled isLoggedInUrl))"

text \<open>Lines 289 to 294: \<open>catch\<close> and \<open>finally\<close> around the body.\<close>

definition guarded :: "env \<Rightarrow> unit io \<Rightarrow> unit io" where
  "guarded E body =
     tryFinally (tryCatch body (\<lambda>err. seqIO (consoleError [V err]) (setExitCode 1))) (close E)"

text \<open>Lines 93 to 104: the named channels, in order. The result tells whether \<open>context\<close> is set.\<close>

fun launchNamed :: "env \<Rightarrow> string list \<Rightarrow> bool io" where
  "launchNamed E [] w = (Ok False, w)"
| "launchNamed E (channel # channels) w =
     (case tryCatch
             (seqIO (launchPersistentContext E (Some channel))
             (seqIO (logDebug E [S ''Using browser channel:'', S channel])
                    (ret True)))
             (\<lambda>e. ret False) w of
        (Ok True, w1) \<Rightarrow> (Ok True, w1)
      | (Ok False, w1) \<Rightarrow> launchNamed E channels w1
      | (Throw e, w1) \<Rightarrow> (Throw e, w1)
      | (NoReturn, w1) \<Rightarrow> (NoReturn, w1))"

text \<open>Lines 93 to 108: the launch of the browser.\<close>

definition launch :: "env \<Rightarrow> unit io" where
  "launch E =
     bindIO (launchNamed E [''chrome'', ''msedge'']) (\<lambda>context.
       whenIO (\<not> context)
         (seqIO (launchPersistentContext E None)
                (logDebug E [S ''Using browser: bundled Chromium''])))"

text \<open>Lines 110 to 116: the value of \<open>savedStateData\<close>.\<close>

definition loadSavedState :: "env \<Rightarrow> bool \<Rightarrow> artifact option io" where
  "loadSavedState E hasSavedState =
     (if hasSavedState
      then bindIO (\<lambda>w. liftSum (loadStateFile (parse E) (toStr E) (readFileSync E w)) w)
             (\<lambda>savedStateData.
                seqIO (whenIO (length (cookies savedStateData) > 0)
                         (seqIO (addCookies E (cookies savedStateData))
                                (consoleLog [S ''Loaded saved session from'', S (STATE_FILE E)])))
                      (ret (Some savedStateData)))
      else ret None)"

text \<open>Lines 118 and 119: the first page of the context, or a new one.\<close>

definition firstPage :: "env \<Rightarrow> unit io" where
  "firstPage E w = (if hasPage E w then (Ok (), w) else newPage E w)"

text \<open>Lines 66 to 71.\<close>

definition ensureDirs :: "env \<Rightarrow> unit io" where
  "ensureDirs E =
     seqIO (\<lambda>w. whenIO (\<not> authDir w) (mkdirAuth E) w)
           (\<lambda>w. whenIO (\<not> profileDir w) (mkdirProfile E) w)"

text \<open>Lines 75 to 294, once the credentials are known.\<close>

definition session :: "env \<Rightarrow> string \<Rightarrow> string \<Rightarrow> unit io" where
  "session E username password =
     bindIO (\<lambda>w. (Ok (stateFile w \<noteq> None), w)) (\<lambda>hasSavedState.
     seqIO (launch E)
    (bindIO (loadSavedState E hasSavedState) (\<lambda>savedStateData.
     seqIO (firstPage E)
           (guarded E (flow E username password hasSavedState savedStateData)))))"

definition envOr :: "string option \<Rightarrow> string" where
  "envOr v = (case v of Some s \<Rightarrow> s | None \<Rightarrow> [])"

text \<open>Lines 55 to 295, \<open>main\<close>.\<close>

definition main :: "env \<Rightarrow> unit io" where
  "main E =
     (let username = trim (envOr (SF_USERNAME E));
          password = trim (envOr (SF_PASSWORD E))
      in if username = [] \<or> password = []
         then seqIO (consoleError [S ''Set SF_USERNAME and SF_PASSWORD in .env (in the project root).''])
             (seqIO (consoleError [S ''Current .env lookup: project root ='', S (projectRoot E)])
                    (processExit 1))
         else seqIO (consoleLog [S ''Using credentials from .env (username length:'',
                                 N (length username), S '')''])
             (seqIO (ensureDirs E)
                    (session E username password)))"

section \<open>Observations of a trace\<close>

text \<open>The channels that \<open>launchPersistentContext\<close> was called with, in order.\<close>

fun launches :: "event list \<Rightarrow> string option list" where
  "launches [] = []"
| "launches (Launch channel # evs) = channel # launches evs"
| "launches (ev # evs) = launches evs"

text \<open>The frames in which the script was evaluated, in order.\<close>

fun evaluated :: "event list \<Rightarrow> nat list" where
  "evaluated [] = []"
| "evaluated (Evaluate frame # evs) = frame # evaluated evs"
| "evaluated (ev # evs) = evaluated evs"

text \<open>
  The answers of the evaluations, in order: the frame, and whether the script reported
  \<open>done\<close>. An evaluation that was rejected did not.
\<close>

fun reports :: "event list \<Rightarrow> (nat \<times> bool) list" where
  "reports [] = []"
| "reports (Evaluated frame es (Inr result) # evs) = (frame, done' result) # reports evs"
| "reports (Evaluated frame es (Inl e) # evs) = (frame, False) # reports evs"
| "reports (ev # evs) = reports evs"

text \<open>
  The run goes from \<open>w\<close> to \<open>w'\<close> by the events \<open>ext\<close>: time passes, and nothing else changes.
\<close>

definition goesTo :: "world \<Rightarrow> event list \<Rightarrow> world \<Rightarrow> bool" where
  "goesTo w ext w' =
     (trace w' = trace w @ ext \<and> clock w \<le> clock w'
      \<and> exitCode w' = exitCode w \<and> authDir w' = authDir w \<and> profileDir w' = profileDir w
      \<and> stateFile w' = stateFile w \<and> contextOpen w' = contextOpen w)"

text \<open>A computation that leaves the state file as it is.\<close>

definition keeps :: "'a io \<Rightarrow> bool" where
  "keeps m = (\<forall>w. stateFile (snd (m w)) = stateFile w)"

text \<open>A computation that leaves the state file as it is unless \<open>Q\<close> holds of the file before.\<close>

definition keepsUnless :: "(string option \<Rightarrow> bool) \<Rightarrow> 'a io \<Rightarrow> bool" where
  "keepsUnless Q m = (\<forall>w. stateFile (snd (m w)) = stateFile w \<or> Q (stateFile w))"

text \<open>The run reaches line 256 with \<open>loginFilled\<close> true, from a state file \<open>s\<close>.\<close>

definition filledFrom :: "env \<Rightarrow> string \<Rightarrow> string \<Rightarrow> string option \<Rightarrow> bool" where
  "filledFrom E username password s =
     (\<exists>hasSavedState savedStateData ws w1 w2.
        stateFile ws = s
        \<and> probe E hasSavedState savedStateData ws = (Ok False, w1)
        \<and> fillLogin E username password w1 = (Ok True, w2))"

text \<open>What a run writes to the console, in order.\<close>

fun consoleOf :: "event list \<Rightarrow> event list" where
  "consoleOf [] = []"
| "consoleOf (ConsoleLog as # evs) = ConsoleLog as # consoleOf evs"
| "consoleOf (ConsoleError as # evs) = ConsoleError as # consoleOf evs"
| "consoleOf (ev # evs) = consoleOf evs"

section \<open>Example surroundings\<close>

text \<open>
  Concrete surroundings on which the results below are instantiated. \<open>exampleParse\<close> stands
  for \<open>JSON.parse\<close> on three texts and rejects every other text.
\<close>

definition exampleParse :: "string \<Rightarrow> js_error + json" where
  \<open>exampleParse raw =
     (if raw = ''{"cookies":[]}'' then Inr (JObj [(''cookies'', JArr [])])
      else if raw = ''{"cookies":[{"name":"sid"}]}''
        then Inr (JObj [(''cookies'', JArr [JObj [(''name'', JStr ''sid'')]])])
      else if raw = ''{"cookies":[{"domain":"foo.lightning.force.com"}]}''
        then Inr (JObj [(''cookies'', JArr [JObj [(''domain'', JStr ''foo.lightning.force.com'')]])])
      else Inl (JsError ''SyntaxError'' ''Unexpected token''))\<close>

text \<open>A login page with the two fields and the login button.\<close>

definition loginDocument :: document where
  "loginDocument =
     \<lparr>querySelector = (\<lambda>es sel. Inr (if sel = ''input#username'' then Some 1
                                       else if sel = ''input#password'' then Some 2
                                       else if sel = ''input#Login'' then Some 3 else None)),
      closestForm = (\<lambda>es el. Inr (Some 4)),
      throws = (\<lambda>es c. None)\<rparr>"

text \<open>A page without any input.\<close>

definition blankDocument :: document where
  "blankDocument =
     \<lparr>querySelector = (\<lambda>es sel. Inr None), closestForm = (\<lambda>es el. Inr None),
      throws = (\<lambda>es c. None)\<rparr>"

text \<open>
  A first run: the site shows its login page in the main frame, nothing fails, and every
  awaited call takes 40 seconds, so that each polling loop makes a single round.
\<close>

definition loginEnv :: env where
  "loginEnv =
     \<lparr>SF_USERNAME = Some ''user'', SF_PASSWORD = Some ''hunter2'',
      HEADED = False, DEBUG = False,
      projectRoot = ''/repo'', AUTH_DIR = ''/repo/.auth'',
      BROWSER_PROFILE_DIR = ''/repo/.auth/browser-profile'',
      STATE_FILE = ''/repo/.auth/salesforce-auth.json'',
      parse = exampleParse, toStr = (\<lambda>v. Inl TypeError),
      latency = (\<lambda>w. 40000),
      mkdirFails = (\<lambda>w. None), readFails = (\<lambda>w. None), launchFails = (\<lambda>w. None),
      addCookiesFails = (\<lambda>w. None), hasPage = (\<lambda>w. True), newPageFails = (\<lambda>w. None),
      gotoFails = (\<lambda>w. None),
      pageUrl = (\<lambda>w. ''https://test.salesforce.com/''),
      pageFrames = (\<lambda>w. [0]), mainFrame = 0,
      frameUrl = (\<lambda>f w. ''https://test.salesforce.com/''),
      frameDocument = (\<lambda>w. Inr loginDocument),
      loadStateFails = (\<lambda>w. None),
      selectorFails = (\<lambda>w. Some (JsError ''TimeoutError'' ''Timeout exceeded'')),
      enterPressed = (\<lambda>w. True),
      snapshot = (\<lambda>w. Inr ''{}'')\<rparr>"

definition freshWorld :: world where
  "freshWorld =
     \<lparr>clock = 0, trace = [], exitCode = 0, authDir = False, profileDir = False,
      stateFile = None, contextOpen = False\<rparr>"

text \<open>
  A login page whose form is
  \<open><form><input type="email"><input type="password"><button name="submit">Log in</button></form>\<close>.
  Both fields are found; the button has no \<open>type\<close> attribute, so none of the four selectors
  for a submit control matches it; the form is found from the username field; and
  \<open>form.submit\<close> is the button named \<open>submit\<close>, not the method.
\<close>

definition shadowedSubmitDocument :: document where
  \<open>shadowedSubmitDocument =
     \<lparr>querySelector = (\<lambda>es sel. Inr (if sel = ''input[type="email"]'' then Some 1
                                       else if sel = ''input[type="password"]'' then Some 2
                                       else None)),
      closestForm = (\<lambda>es el. Inr (if el = 1 \<or> el = 2 \<or> el = 3 then Some 4 else None)),
      throws = (\<lambda>es c. if c = Submit 4
                         then Some (JsError ''TypeError'' ''form.submit is not a function'')
                         else None)\<rparr>\<close>

text \<open>The first run on a site whose login page is that page.\<close>

definition shadowedSubmitEnv :: env where
  "shadowedSubmitEnv = loginEnv\<lparr>frameDocument := (\<lambda>w. Inr shadowedSubmitDocument)\<rparr>"

text \<open>Surroundings in which only Edge starts, and surroundings in which no browser starts.\<close>

definition edgeOnlyEnv :: env where
  "edgeOnlyEnv =
     loginEnv\<lparr>launchFails := (\<lambda>w. if last (trace w) = Launch (Some ''msedge'') then None
                                   else Some (JsError ''Error'' ''executable not found''))\<rparr>"

definition noBrowserEnv :: env where
  "noBrowserEnv = loginEnv\<lparr>launchFails := (\<lambda>w. Some (JsError ''Error'' ''executable not found''))\<rparr>"



text \<open>A browser profile that is still logged in: every navigation ends on the dashboard.\<close>

definition dashboardEnv :: env where
  "dashboardEnv =
     loginEnv\<lparr>pageUrl := (\<lambda>w. ''https://na1.lightning.force.com/'')\<rparr>"

text \<open>The state file exists, and its text is not JSON.\<close>

definition brokenFileWorld :: world where
  "brokenFileWorld = freshWorld\<lparr>stateFile := Some ''not json''\<rparr>"

text \<open>A site whose pages never show a login form.\<close>

definition blankEnv :: env where
  "blankEnv = loginEnv\<lparr>frameDocument := (\<lambda>w. Inr blankDocument)\<rparr>"

text \<open>
  A state file whose only cookie lacks the fields that \<open>addCookies\<close> requires, and a browser
  context that rejects it.
\<close>

definition badCookieWorld :: world where
  \<open>badCookieWorld = freshWorld\<lparr>stateFile := Some ''{"cookies":[{"name":"sid"}]}''\<rparr>\<close>

definition badCookieEnv :: env where
  "badCookieEnv =
     loginEnv\<lparr>addCookiesFails :=
       (\<lambda>w. Some (JsError ''Error'' ''cookies[0].value: expected string, got undefined''))\<rparr>"

text \<open>The first run again, with another password of the same length.\<close>

definition otherPasswordEnv :: env where
  "otherPasswordEnv = loginEnv\<lparr>SF_PASSWORD := Some ''sesame7''\<rparr>"

section \<open>Rules for running the model\<close>

lemmas io_defs = ret_def throwJs_def bindIO_def seqIO_def whenIO_def tryCatch_def tryFinally_def
  swallow_def liftSum_def emit_def call_def failing_def consoleLog_def consoleError_def
  logDebug_def sleep_def delay_def processExit_def setExitCode_def readFileSync_def
  mkdirAuth_def mkdirProfile_def launchPersistentContext_def addCookies_def newPage_def
  goto_def url_def waitForLoadState_def waitForSelector_def waitForEnter_def storageState_def
  close_def

lemmas load_defs = loadStateFile_def loadStateFile_try_def cookiesOf_def deriveEndpoint_def
  isLightningCookie_def template_def emptyArtifact_def TypeError_def

lemma sessionFramePass_over:
  "\<not> clock w - pollStart < maxWait \<Longrightarrow>
     sessionFramePass E username password maxWait pollStart w = (Ok False, w)"
  by (simp add: sessionFramePass.simps [of E username password maxWait pollStart w])

lemma sessionFramePass_absent:
  "clock w - pollStart < maxWait \<Longrightarrow> sessionFrameOf E w = None \<Longrightarrow>
     sessionFramePass E username password maxWait pollStart w =
       sessionFramePass E username password maxWait pollStart (sleep E 800 w)"
  by (simp add: sessionFramePass.simps [of E username password maxWait pollStart w])

lemma sessionFramePass_present:
  "clock w - pollStart < maxWait \<Longrightarrow> sessionFrameOf E w = Some sessionFrame \<Longrightarrow>
   fillSessionFrame E sessionFrame username password w = (Ok result, w1) \<Longrightarrow>
     sessionFramePass E username password maxWait pollStart w =
       (if done' result
        then seqIO (logDebug E [S ''Login filled in sessionserver iframe:'', S (message result)])
               (ret True) w1
        else sessionFramePass E username password maxWait pollStart (sleep E 800 w1))"
  by (simp add: sessionFramePass.simps [of E username password maxWait pollStart w])

lemma waitAndFillFrame_loop_over:
  "\<not> clock w - start < maxWaitMs \<Longrightarrow>
     waitAndFillFrame_loop E frame user pass maxWaitMs start w =
       (Ok \<lparr>done' = False, message = ''timeout''\<rparr>, w)"
  by (simp add: waitAndFillFrame_loop.simps [of E frame user pass maxWaitMs start w])

lemma waitAndFillFrame_loop_done:
  "clock w - start < maxWaitMs \<Longrightarrow>
   waitAndFillFrame_try E frame user pass w = (Ok (Some result), w1) \<Longrightarrow>
     waitAndFillFrame_loop E frame user pass maxWaitMs start w = (Ok result, w1)"
  by (simp add: waitAndFillFrame_loop.simps [of E frame user pass maxWaitMs start w])

lemma waitAndFillFrame_loop_again:
  "clock w - start < maxWaitMs \<Longrightarrow>
   waitAndFillFrame_try E frame user pass w = (Ok None, w1) \<Longrightarrow>
     waitAndFillFrame_loop E frame user pass maxWaitMs start w =
       waitAndFillFrame_loop E frame user pass maxWaitMs start (sleep E 500 w1)"
  by (simp add: waitAndFillFrame_loop.simps [of E frame user pass maxWaitMs start w])

lemmas fill_defs = fillLogin_def mainFramePass_def waitAndFillFrame_def fillSessionFrame_def
  sessionFramePass_over sessionFramePass_absent sessionFramePass_present sessionFrameOf_def
  waitAndFillFrame_loop_over waitAndFillFrame_loop_done waitAndFillFrame_loop_again
  waitAndFillFrame_try_def fillLoginInFrame_def pageFunction_def
  usernameSelectors_def passwordSelectors_def buttonSelectors_def formSelectors_def fillEvents_def

lemmas probe_defs = probe_def savedProbe_def entryProbe_def dashboardProbe_def loginPageProbe_def
  isLoggedInSaved_def isLoggedInLogin_def urlPattern_def urlPatternLower_def toLower_def
  caseTable_def isLowerAlnum_def
  SALESFORCE_URL_def SALESFORCE_HOME_URL_def

lemmas main_defs = main_def session_def envOr_def trim_def isWhiteSpace_def ensureDirs_def
  launch_def loadSavedState_def firstPage_def guarded_def flow_def finish_def formNotFound_def
  persistSession_def otpSelectors_def postLoginSelectors_def

section \<open>What the three passes do to the trace\<close>

lemma evaluated_append: "evaluated (xs @ ys) = evaluated xs @ evaluated ys"
  by (induction xs rule: evaluated.induct) auto

lemma reports_append: "reports (xs @ ys) = reports xs @ reports ys"
  by (induction xs rule: reports.induct) auto

lemma trace_sleep: "trace (sleep E ms w) = trace w @ [Sleep ms]"
  by (simp add: sleep_def emit_def Let_def)

subsection \<open>Runs that only add to the trace\<close>

lemma goesTo_refl: "goesTo w [] w"
  by (simp add: goesTo_def)

lemma goesTo_trans: "goesTo w x w1 \<Longrightarrow> goesTo w1 y w2 \<Longrightarrow> goesTo w (x @ y) w2"
  by (simp add: goesTo_def)

lemma goesTo_emit: "goesTo w [ev] (emit ev w)"
  by (simp add: goesTo_def emit_def)

lemma goesTo_call: "goesTo w [ev] (call E ev w)"
  by (simp add: goesTo_def call_def emit_def Let_def)

lemma goesTo_sleep: "goesTo w [Sleep ms] (sleep E ms w)"
  by (simp add: goesTo_def sleep_def emit_def Let_def)

lemma goesTo_trace: "goesTo w x w' \<Longrightarrow> trace w' = trace w @ x"
  by (simp add: goesTo_def)


text \<open>
  \<open>triedAt w ext w' P f\<close>: on its way from \<open>w\<close> to \<open>w'\<close> by the events \<open>ext\<close>, the run went
  through a world \<open>wc\<close> of which \<open>P\<close> held, and the next evaluation after \<open>wc\<close> was in the
  frame \<open>f\<close>.
\<close>

definition triedAt :: "world \<Rightarrow> event list \<Rightarrow> world \<Rightarrow> (world \<Rightarrow> bool) \<Rightarrow> nat \<Rightarrow> bool" where
  "triedAt w ext w' P f =
     (\<exists>wc pre post rest. ext = pre @ post \<and> goesTo w pre wc \<and> goesTo wc post w'
        \<and> P wc \<and> evaluated post = f # rest)"

lemma triedAt_here:
  assumes "goesTo w ext w'" and "P w" and "evaluated ext = f # rest"
  shows "triedAt w ext w' P f"
proof -
  have "ext = [] @ ext \<and> goesTo w [] w \<and> goesTo w ext w' \<and> P w \<and> evaluated ext = f # rest"
    using assms goesTo_refl by simp
  then show ?thesis unfolding triedAt_def by blast
qed

lemma triedAt_later:
  assumes go: "goesTo w x w1" and tr: "triedAt w1 ext w' P f"
  shows "triedAt w (x @ ext) w' P f"
proof -
  obtain wc pre post rest where ext: "ext = pre @ post" and g1: "goesTo w1 pre wc"
    and g2: "goesTo wc post w'" and p: "P wc" and e: "evaluated post = f # rest"
    using tr unfolding triedAt_def by blast
  have "x @ ext = (x @ pre) @ post" using ext by simp
  moreover have "goesTo w (x @ pre) wc" using goesTo_trans [OF go g1] .
  ultimately show ?thesis using g2 p e unfolding triedAt_def by blast
qed

lemma triedAt_append:
  assumes tr: "triedAt w ext w' P f" and go: "goesTo w' y w''"
  shows "triedAt w (ext @ y) w'' P f"
proof -
  obtain wc pre post rest where ext: "ext = pre @ post" and g1: "goesTo w pre wc"
    and g2: "goesTo wc post w'" and p: "P wc" and e: "evaluated post = f # rest"
    using tr unfolding triedAt_def by blast
  have "ext @ y = pre @ (post @ y)" using ext by simp
  moreover have "goesTo wc (post @ y) w''" using goesTo_trans [OF g2 go] .
  moreover have "evaluated (post @ y) = f # (rest @ evaluated y)"
    using e by (simp add: evaluated_append)
  ultimately show ?thesis using g1 p unfolding triedAt_def by blast
qed

subsection \<open>One attempt, and the attempts in one frame\<close>

lemma logDebug_run:
  "\<exists>ext w'. logDebug E as w = (Ok (), w') \<and> goesTo w ext w'
     \<and> evaluated ext = [] \<and> reports ext = []"
proof (cases "DEBUG E")
  case True
  then have "logDebug E as w = (Ok (), emit (ConsoleLog (S ''[debug]'' # as)) w)"
    by (simp add: logDebug_def whenIO_def consoleLog_def)
  moreover have "goesTo w [ConsoleLog (S ''[debug]'' # as)] (emit (ConsoleLog (S ''[debug]'' # as)) w)"
    by (rule goesTo_emit)
  moreover have "evaluated [ConsoleLog (S ''[debug]'' # as)] = []" by simp
  moreover have "reports [ConsoleLog (S ''[debug]'' # as)] = []" by simp
  ultimately show ?thesis by blast
next
  case False
  then have "logDebug E as w = (Ok (), w)"
    by (simp add: logDebug_def whenIO_def ret_def)
  moreover have "goesTo w [] w" by (rule goesTo_refl)
  moreover have "evaluated [] = []" by simp
  moreover have "reports [] = []" by simp
  ultimately show ?thesis by blast
qed

lemma fillLoginInFrame_run:
  "\<exists>r w2 es ans. fillLoginInFrame E frame user pass w = (r, w2)
     \<and> goesTo w [Evaluate frame, Evaluated frame es ans] w2
     \<and> r = (case ans of Inl e \<Rightarrow> Throw e | Inr result \<Rightarrow> Ok result)"
proof -
  let ?w1 = "call E (Evaluate frame) w"
  have go: "\<And>es ans. goesTo w [Evaluate frame, Evaluated frame es ans]
      (emit (Evaluated frame es ans) ?w1)"
    using goesTo_trans [OF goesTo_call goesTo_emit] by simp
  show ?thesis
  proof (cases "frameDocument E ?w1")
    case (Inl e)
    then have "fillLoginInFrame E frame user pass w
        = (Throw e, emit (Evaluated frame [] (Inl e)) ?w1)"
      by (simp add: fillLoginInFrame_def Let_def)
    moreover have "Throw e = (case Inl e :: js_error + fill_result of
        Inl e \<Rightarrow> Throw e | Inr result \<Rightarrow> Ok result)"
      by simp
    ultimately show ?thesis using go by blast
  next
    case (Inr doc)
    obtain ans es where pf: "pageFunction doc user pass = (ans, es)"
      by (cases "pageFunction doc user pass")
    have "fillLoginInFrame E frame user pass w
        = ((case ans of Inl e \<Rightarrow> Throw e | Inr result \<Rightarrow> Ok result),
           emit (Evaluated frame es ans) ?w1)"
      using Inr pf by (cases ans) (simp_all add: fillLoginInFrame_def Let_def)
    then show ?thesis using go by blast
  qed
qed

lemma waitAndFillFrame_try_run:
  "\<exists>x w1 ext d. waitAndFillFrame_try E frame user pass w = (Ok x, w1)
     \<and> goesTo w ext w1 \<and> evaluated ext = [frame] \<and> reports ext = [(frame, d)]
     \<and> (case x of Some result \<Rightarrow> done' result \<and> d | None \<Rightarrow> \<not> d)"
proof -
  obtain r w2 es ans where fill: "fillLoginInFrame E frame user pass w = (r, w2)"
    and go: "goesTo w [Evaluate frame, Evaluated frame es ans] w2"
    and r: "r = (case ans of Inl e \<Rightarrow> Throw e | Inr result \<Rightarrow> Ok result)"
    using fillLoginInFrame_run by blast
  show ?thesis
  proof (cases ans)
    case (Inl e)
    obtain ext0 w3 where l: "logDebug E [S ''Frame evaluate error:'', S (errMessage e)] w2
        = (Ok (), w3)"
      and go0: "goesTo w2 ext0 w3" and e0: "evaluated ext0 = []" and r0: "reports ext0 = []"
      using logDebug_run by blast
    have "waitAndFillFrame_try E frame user pass w = (Ok None, w3)"
      using fill r Inl l
      by (simp add: waitAndFillFrame_try_def tryCatch_def bindIO_def seqIO_def ret_def)
    moreover have "goesTo w ([Evaluate frame, Evaluated frame es ans] @ ext0) w3"
      using goesTo_trans [OF go go0] .
    moreover have "evaluated ([Evaluate frame, Evaluated frame es ans] @ ext0) = [frame]"
      using e0 by (simp add: evaluated_append)
    moreover have "reports ([Evaluate frame, Evaluated frame es ans] @ ext0) = [(frame, False)]"
      using r0 Inl by (simp add: reports_append)
    moreover have "case None :: fill_result option of
        Some result \<Rightarrow> done' result \<and> False | None \<Rightarrow> \<not> False"
      by simp
    ultimately show ?thesis by blast
  next
    case (Inr result)
    show ?thesis
    proof (cases "done' result")
      case True
      have "waitAndFillFrame_try E frame user pass w = (Ok (Some result), w2)"
        using fill r Inr True
        by (simp add: waitAndFillFrame_try_def tryCatch_def bindIO_def seqIO_def ret_def)
      moreover have "evaluated [Evaluate frame, Evaluated frame es ans] = [frame]" by simp
      moreover have "reports [Evaluate frame, Evaluated frame es ans] = [(frame, True)]"
        using Inr True by simp
      moreover have "case Some result of Some result \<Rightarrow> done' result \<and> True | None \<Rightarrow> \<not> True"
        using True by simp
      ultimately show ?thesis using go by blast
    next
      case False
      obtain ext0 w3 where l: "logDebug E [S ''Form not ready:'', S (message result)] w2
          = (Ok (), w3)"
        and go0: "goesTo w2 ext0 w3" and e0: "evaluated ext0 = []" and r0: "reports ext0 = []"
        using logDebug_run by blast
      have "waitAndFillFrame_try E frame user pass w = (Ok None, w3)"
        using fill r Inr False l
        by (simp add: waitAndFillFrame_try_def tryCatch_def bindIO_def seqIO_def ret_def)
      moreover have "goesTo w ([Evaluate frame, Evaluated frame es ans] @ ext0) w3"
        using goesTo_trans [OF go go0] .
      moreover have "evaluated ([Evaluate frame, Evaluated frame es ans] @ ext0) = [frame]"
        using e0 by (simp add: evaluated_append)
      moreover have "reports ([Evaluate frame, Evaluated frame es ans] @ ext0) = [(frame, False)]"
        using r0 Inr False by (simp add: reports_append)
      moreover have "case None :: fill_result option of
          Some result \<Rightarrow> done' result \<and> False | None \<Rightarrow> \<not> False"
        by simp
      ultimately show ?thesis by blast
    qed
  qed
qed

lemma waitAndFillFrame_loop_run:
  "\<exists>r w' ext n. waitAndFillFrame_loop E frame user pass maxWaitMs start w = (Ok r, w')
     \<and> goesTo w ext w' \<and> evaluated ext = map fst (reports ext)
     \<and> reports ext = replicate n (frame, False) @ (if done' r then [(frame, True)] else [])
     \<and> (clock w - start < maxWaitMs \<longrightarrow> 0 < n \<or> done' r)"
proof (induction E frame user pass maxWaitMs start w rule: waitAndFillFrame_loop.induct)
  case (1 E frame user pass maxWaitMs start w)
  show ?case
  proof (cases "clock w - start < maxWaitMs")
    case False
    then have "waitAndFillFrame_loop E frame user pass maxWaitMs start w
        = (Ok \<lparr>done' = False, message = ''timeout''\<rparr>, w)"
      by (simp add: waitAndFillFrame_loop_over)
    moreover have "goesTo w [] w" by (rule goesTo_refl)
    moreover have "evaluated [] = map fst (reports [])" by simp
    moreover have "reports [] = replicate 0 (frame, False)
        @ (if done' \<lparr>done' = False, message = ''timeout''\<rparr> then [(frame, True)] else [])"
      by simp
    ultimately show ?thesis using False by blast
  next
    case True
    obtain x w1 ext1 d where att: "waitAndFillFrame_try E frame user pass w = (Ok x, w1)"
      and go1: "goesTo w ext1 w1" and e1: "evaluated ext1 = [frame]"
      and r1: "reports ext1 = [(frame, d)]"
      and d: "case x of Some result \<Rightarrow> done' result \<and> d | None \<Rightarrow> \<not> d"
      using waitAndFillFrame_try_run [of E frame user pass w] by blast
    show ?thesis
    proof (cases x)
      case (Some result)
      have "waitAndFillFrame_loop E frame user pass maxWaitMs start w = (Ok result, w1)"
        using True att Some by (simp add: waitAndFillFrame_loop_done)
      moreover have "evaluated ext1 = map fst (reports ext1)" using e1 r1 by simp
      moreover have "reports ext1 = replicate 0 (frame, False)
          @ (if done' result then [(frame, True)] else [])"
        using r1 d Some by simp
      moreover have "clock w - start < maxWaitMs \<longrightarrow> 0 < (0::nat) \<or> done' result"
        using d Some by simp
      ultimately show ?thesis using go1 by blast
    next
      case None
      obtain r w' ext n where run: "waitAndFillFrame_loop E frame user pass maxWaitMs start
          (sleep E 500 w1) = (Ok r, w')"
        and go2: "goesTo (sleep E 500 w1) ext w'"
        and e2: "evaluated ext = map fst (reports ext)"
        and r2: "reports ext = replicate n (frame, False)
            @ (if done' r then [(frame, True)] else [])"
        using "1.IH" [OF True att [symmetric]] None by blast
      have "waitAndFillFrame_loop E frame user pass maxWaitMs start w = (Ok r, w')"
        using True att None run by (simp add: waitAndFillFrame_loop_again)
      moreover have "goesTo w (ext1 @ [Sleep 500] @ ext) w'"
        using goesTo_trans [OF go1 goesTo_trans [OF goesTo_sleep go2]] .
      moreover have "evaluated (ext1 @ [Sleep 500] @ ext)
          = map fst (reports (ext1 @ [Sleep 500] @ ext))"
        using e1 r1 e2 by (simp add: evaluated_append reports_append)
      moreover have "reports (ext1 @ [Sleep 500] @ ext) = replicate (Suc n) (frame, False)
          @ (if done' r then [(frame, True)] else [])"
        using r1 r2 d None by (simp add: reports_append)
      moreover have "clock w - start < maxWaitMs \<longrightarrow> 0 < Suc n \<or> done' r" by simp
      ultimately show ?thesis by blast
    qed
  qed
qed

lemma waitAndFillFrame_run:
  assumes "0 < maxWaitMs"
  shows "\<exists>r w' ext n. waitAndFillFrame E frame user pass maxWaitMs w = (Ok r, w')
     \<and> goesTo w ext w' \<and> evaluated ext = map fst (reports ext)
     \<and> reports ext = replicate n (frame, False) @ (if done' r then [(frame, True)] else [])
     \<and> (0 < n \<or> done' r)"
  using waitAndFillFrame_loop_run [of E frame user pass maxWaitMs "clock w" w] assms
  by (simp add: waitAndFillFrame_def)

text \<open>The first frame of a run of attempts in one frame.\<close>

lemma attempts_first:
  assumes "reports ext = replicate n (frame, False) @ (if b then [(frame, True)] else [])"
    and "evaluated ext = map fst (reports ext)" and "0 < n \<or> b"
  shows "\<exists>rest. evaluated ext = frame # rest" and "set (evaluated ext) = {frame}"
proof -
  show "\<exists>rest. evaluated ext = frame # rest"
    using assms by (cases n) auto
  show "set (evaluated ext) = {frame}"
    using assms by (cases n) auto
qed

lemma fillSessionFrame_run:
  "\<exists>r w' ext n. fillSessionFrame E sessionFrame user pass w = (Ok r, w')
     \<and> goesTo w ext w' \<and> evaluated ext = map fst (reports ext)
     \<and> reports ext = replicate n (sessionFrame, False)
                     @ (if done' r then [(sessionFrame, True)] else [])
     \<and> (0 < n \<or> done' r)"
proof -
  obtain ext0 w0 where l: "logDebug E [S ''Found sessionserver frame, filling via JS...''] w
      = (Ok (), w0)"
    and go0: "goesTo w ext0 w0" and e0: "evaluated ext0 = []" and r0: "reports ext0 = []"
    using logDebug_run by blast
  obtain r w' ext n where run: "waitAndFillFrame E sessionFrame user pass 20000 w0 = (Ok r, w')"
    and go: "goesTo w0 ext w'" and e: "evaluated ext = map fst (reports ext)"
    and rp: "reports ext = replicate n (sessionFrame, False)
               @ (if done' r then [(sessionFrame, True)] else [])"
    and n: "0 < n \<or> done' r"
    using waitAndFillFrame_run [of 20000 E sessionFrame user pass w0] by auto
  have "fillSessionFrame E sessionFrame user pass w = (Ok r, w')"
    using l run by (simp add: fillSessionFrame_def seqIO_def bindIO_def)
  moreover have "goesTo w (ext0 @ ext) w'" using goesTo_trans [OF go0 go] .
  moreover have "evaluated (ext0 @ ext) = map fst (reports (ext0 @ ext))"
    using e0 r0 e by (simp add: evaluated_append reports_append)
  moreover have "reports (ext0 @ ext) = replicate n (sessionFrame, False)
      @ (if done' r then [(sessionFrame, True)] else [])"
    using r0 rp by (simp add: reports_append)
  ultimately show ?thesis using n by blast
qed

subsection \<open>Pass 1\<close>

lemma sessionFramePass_run:
  "\<exists>b w' ext n. sessionFramePass E username password maxWait pollStart w = (Ok b, w')
     \<and> goesTo w ext w' \<and> evaluated ext = map fst (reports ext)
     \<and> map snd (reports ext) = replicate n False @ (if b then [True] else [])
     \<and> (\<forall>f\<in>set (evaluated ext). triedAt w ext w' (\<lambda>wc. sessionFrameOf E wc = Some f) f)
     \<and> (clock w - pollStart < maxWait \<longrightarrow>
          (\<forall>f. sessionFrameOf E w = Some f \<longrightarrow> (\<exists>rest. evaluated ext = f # rest)))"
proof (induction E username password maxWait pollStart w rule: sessionFramePass.induct)
  case (1 E username password maxWait pollStart w)
  show ?case
  proof (cases "clock w - pollStart < maxWait")
    case False
    then have "sessionFramePass E username password maxWait pollStart w = (Ok False, w)"
      by (simp add: sessionFramePass_over)
    moreover have "goesTo w [] w" by (rule goesTo_refl)
    moreover have "evaluated [] = map fst (reports [])" by simp
    moreover have "map snd (reports []) = replicate 0 False @ (if False then [True] else [])"
      by simp
    moreover have "\<forall>f\<in>set (evaluated []). triedAt w [] w (\<lambda>wc. sessionFrameOf E wc = Some f) f"
      by simp
    ultimately show ?thesis using False by blast
  next
    case True
    show ?thesis
    proof (cases "sessionFrameOf E w")
      case None
      obtain b w' ext n where run: "sessionFramePass E username password maxWait pollStart
          (sleep E 800 w) = (Ok b, w')"
        and go: "goesTo (sleep E 800 w) ext w'"
        and e: "evaluated ext = map fst (reports ext)"
        and rp: "map snd (reports ext) = replicate n False @ (if b then [True] else [])"
        and tr: "\<forall>f\<in>set (evaluated ext).
            triedAt (sleep E 800 w) ext w' (\<lambda>wc. sessionFrameOf E wc = Some f) f"
        using "1.IH"(1) [OF True None] by blast
      have "sessionFramePass E username password maxWait pollStart w = (Ok b, w')"
        using True None run by (simp add: sessionFramePass_absent)
      moreover have "goesTo w ([Sleep 800] @ ext) w'"
        using goesTo_trans [OF goesTo_sleep go] .
      moreover have "evaluated ([Sleep 800] @ ext) = map fst (reports ([Sleep 800] @ ext))"
        using e by simp
      moreover have "map snd (reports ([Sleep 800] @ ext))
          = replicate n False @ (if b then [True] else [])"
        using rp by simp
      moreover have "\<forall>f\<in>set (evaluated ([Sleep 800] @ ext)).
          triedAt w ([Sleep 800] @ ext) w' (\<lambda>wc. sessionFrameOf E wc = Some f) f"
      proof
        fix f assume "f \<in> set (evaluated ([Sleep 800] @ ext))"
        then have "f \<in> set (evaluated ext)" by simp
        with tr have "triedAt (sleep E 800 w) ext w' (\<lambda>wc. sessionFrameOf E wc = Some f) f"
          by blast
        then show "triedAt w ([Sleep 800] @ ext) w' (\<lambda>wc. sessionFrameOf E wc = Some f) f"
          by (rule triedAt_later [OF goesTo_sleep])
      qed
      moreover have "clock w - pollStart < maxWait \<longrightarrow>
          (\<forall>f. sessionFrameOf E w = Some f \<longrightarrow> (\<exists>rest. evaluated ([Sleep 800] @ ext) = f # rest))"
        using None by simp
      ultimately show ?thesis by blast
    next
      case (Some sessionFrame)
      obtain result w1 ext1 n1 where fill: "fillSessionFrame E sessionFrame username password w
          = (Ok result, w1)"
        and go1: "goesTo w ext1 w1" and e1: "evaluated ext1 = map fst (reports ext1)"
        and r1: "reports ext1 = replicate n1 (sessionFrame, False)
                   @ (if done' result then [(sessionFrame, True)] else [])"
        and n1: "0 < n1 \<or> done' result"
        using fillSessionFrame_run [of E sessionFrame username password w] by blast
      obtain rest1 where first: "evaluated ext1 = sessionFrame # rest1"
        using attempts_first(1) [OF r1 e1 n1] by blast
      have only: "set (evaluated ext1) = {sessionFrame}"
        using attempts_first(2) [OF r1 e1 n1] .
      have here: "triedAt w ext1 w1 (\<lambda>wc. sessionFrameOf E wc = Some sessionFrame) sessionFrame"
        using go1 Some first by (rule triedAt_here)
      show ?thesis
      proof (cases "done' result")
        case dn: True
        obtain ext0 w2 where l: "logDebug E [S ''Login filled in sessionserver iframe:'',
            S (message result)] w1 = (Ok (), w2)"
          and go0: "goesTo w1 ext0 w2" and e0: "evaluated ext0 = []" and r0: "reports ext0 = []"
          using logDebug_run by blast
        have "sessionFramePass E username password maxWait pollStart w = (Ok True, w2)"
          using True Some fill dn l
          by (simp add: sessionFramePass_present seqIO_def bindIO_def ret_def)
        moreover have "goesTo w (ext1 @ ext0) w2" using goesTo_trans [OF go1 go0] .
        moreover have "evaluated (ext1 @ ext0) = map fst (reports (ext1 @ ext0))"
          using e1 e0 r0 by (simp add: evaluated_append reports_append)
        moreover have "map snd (reports (ext1 @ ext0))
            = replicate n1 False @ (if True then [True] else [])"
          using r1 r0 dn by (simp add: reports_append)
        moreover have "\<forall>f\<in>set (evaluated (ext1 @ ext0)).
            triedAt w (ext1 @ ext0) w2 (\<lambda>wc. sessionFrameOf E wc = Some f) f"
        proof
          fix f assume "f \<in> set (evaluated (ext1 @ ext0))"
          then have "f = sessionFrame" using only e0 by (simp add: evaluated_append)
          then show "triedAt w (ext1 @ ext0) w2 (\<lambda>wc. sessionFrameOf E wc = Some f) f"
            using triedAt_append [OF here go0] by simp
        qed
        moreover have "clock w - pollStart < maxWait \<longrightarrow>
            (\<forall>f. sessionFrameOf E w = Some f \<longrightarrow> (\<exists>rest. evaluated (ext1 @ ext0) = f # rest))"
          using Some first by (simp add: evaluated_append)
        ultimately show ?thesis by blast
      next
        case nd: False
        obtain b w' ext n where run: "sessionFramePass E username password maxWait pollStart
            (sleep E 800 w1) = (Ok b, w')"
          and go: "goesTo (sleep E 800 w1) ext w'"
          and e: "evaluated ext = map fst (reports ext)"
          and rp: "map snd (reports ext) = replicate n False @ (if b then [True] else [])"
          and tr: "\<forall>f\<in>set (evaluated ext).
              triedAt (sleep E 800 w1) ext w' (\<lambda>wc. sessionFrameOf E wc = Some f) f"
          using "1.IH"(2) [OF True Some fill [symmetric] refl nd] by blast
        have go2: "goesTo w (ext1 @ [Sleep 800]) (sleep E 800 w1)"
          using goesTo_trans [OF go1 goesTo_sleep] .
        have go3: "goesTo w1 ([Sleep 800] @ ext) w'"
          using goesTo_trans [OF goesTo_sleep go] .
        have "sessionFramePass E username password maxWait pollStart w = (Ok b, w')"
          using True Some fill nd run by (simp add: sessionFramePass_present)
        moreover have "goesTo w ((ext1 @ [Sleep 800]) @ ext) w'"
          using goesTo_trans [OF go2 go] .
        moreover have "evaluated ((ext1 @ [Sleep 800]) @ ext)
            = map fst (reports ((ext1 @ [Sleep 800]) @ ext))"
          using e1 e by (simp add: evaluated_append reports_append)
        moreover have "map snd (reports ((ext1 @ [Sleep 800]) @ ext))
            = replicate (n1 + n) False @ (if b then [True] else [])"
          using r1 rp nd by (simp add: reports_append replicate_add)
        moreover have "\<forall>f\<in>set (evaluated ((ext1 @ [Sleep 800]) @ ext)).
            triedAt w ((ext1 @ [Sleep 800]) @ ext) w' (\<lambda>wc. sessionFrameOf E wc = Some f) f"
        proof
          fix f assume "f \<in> set (evaluated ((ext1 @ [Sleep 800]) @ ext))"
          then consider "f = sessionFrame" | "f \<in> set (evaluated ext)"
            using only by (auto simp: evaluated_append)
          then show "triedAt w ((ext1 @ [Sleep 800]) @ ext) w'
              (\<lambda>wc. sessionFrameOf E wc = Some f) f"
          proof cases
            case 1
            then show ?thesis using triedAt_append [OF here go3] by simp
          next
            case 2
            with tr have "triedAt (sleep E 800 w1) ext w'
                (\<lambda>wc. sessionFrameOf E wc = Some f) f"
              by blast
            then show ?thesis by (rule triedAt_later [OF go2])
          qed
        qed
        moreover have "clock w - pollStart < maxWait \<longrightarrow>
            (\<forall>f. sessionFrameOf E w = Some f
               \<longrightarrow> (\<exists>rest. evaluated ((ext1 @ [Sleep 800]) @ ext) = f # rest))"
          using Some first by (simp add: evaluated_append)
        ultimately show ?thesis by blast
      qed
    qed
  qed
qed

subsection \<open>Pass 2\<close>

lemma mainFramePass_run:
  "\<exists>b w' ext n. mainFramePass E username password w = (Ok b, w')
     \<and> goesTo w ext w' \<and> evaluated ext = map fst (reports ext)
     \<and> reports ext = replicate n (mainFrame E, False) @ (if b then [(mainFrame E, True)] else [])
     \<and> (0 < n \<or> b)"
proof -
  obtain ext0 w0 where l: "logDebug E [S ''Trying main frame...''] w = (Ok (), w0)"
    and go0: "goesTo w ext0 w0" and e0: "evaluated ext0 = []" and r0: "reports ext0 = []"
    using logDebug_run by blast
  obtain r w1 ext1 n where run: "waitAndFillFrame E (mainFrame E) username password 15000 w0
      = (Ok r, w1)"
    and go1: "goesTo w0 ext1 w1" and e1: "evaluated ext1 = map fst (reports ext1)"
    and r1: "reports ext1 = replicate n (mainFrame E, False)
               @ (if done' r then [(mainFrame E, True)] else [])"
    and n: "0 < n \<or> done' r"
    using waitAndFillFrame_run [of 15000 E "mainFrame E" username password w0] by auto
  show ?thesis
  proof (cases "done' r")
    case True
    obtain ext2 w2 where l2: "logDebug E [S ''Login filled in main frame:'', S (message r)] w1
        = (Ok (), w2)"
      and go2: "goesTo w1 ext2 w2" and e2: "evaluated ext2 = []" and r2: "reports ext2 = []"
      using logDebug_run by blast
    have "mainFramePass E username password w = (Ok True, w2)"
      using l run True l2 by (simp add: mainFramePass_def seqIO_def bindIO_def ret_def)
    moreover have "goesTo w (ext0 @ ext1 @ ext2) w2"
      using goesTo_trans [OF go0 goesTo_trans [OF go1 go2]] .
    moreover have "evaluated (ext0 @ ext1 @ ext2) = map fst (reports (ext0 @ ext1 @ ext2))"
      using e0 r0 e1 e2 r2 by (simp add: evaluated_append reports_append)
    moreover have "reports (ext0 @ ext1 @ ext2) = replicate n (mainFrame E, False)
        @ (if True then [(mainFrame E, True)] else [])"
      using r0 r1 r2 True by (simp add: reports_append)
    ultimately show ?thesis by blast
  next
    case False
    have "mainFramePass E username password w = (Ok False, w1)"
      using l run False by (simp add: mainFramePass_def seqIO_def bindIO_def ret_def)
    moreover have "goesTo w (ext0 @ ext1) w1" using goesTo_trans [OF go0 go1] .
    moreover have "evaluated (ext0 @ ext1) = map fst (reports (ext0 @ ext1))"
      using e0 r0 e1 by (simp add: evaluated_append reports_append)
    moreover have "reports (ext0 @ ext1) = replicate n (mainFrame E, False)
        @ (if False then [(mainFrame E, True)] else [])"
      using r0 r1 False by (simp add: reports_append)
    moreover have "0 < n \<or> False" using n False by simp
    ultimately show ?thesis by blast
  qed
qed

subsection \<open>Pass 3\<close>

lemma otherFramesPass_run:
  "\<exists>b w' ext n. otherFramesPass E username password frames w = (Ok b, w')
     \<and> goesTo w ext w' \<and> evaluated ext = map fst (reports ext)
     \<and> map snd (reports ext) = replicate n False @ (if b then [True] else [])
     \<and> (\<forall>f\<in>set (evaluated ext).
           f \<in> set frames \<and> f \<noteq> mainFrame E
           \<and> triedAt w ext w' (\<lambda>wc. \<not> jsIncludes (frameUrl E f wc) ''sessionserver'') f)
     \<and> (\<not> b \<longrightarrow>
          (\<forall>f\<in>set frames.
             f \<noteq> mainFrame E \<and> (\<forall>wc pre. goesTo w pre wc
               \<longrightarrow> \<not> jsIncludes (frameUrl E f wc) ''sessionserver'')
             \<longrightarrow> f \<in> set (evaluated ext)))"
proof (induction frames arbitrary: w)
  case Nil
  have "otherFramesPass E username password [] w = (Ok False, w)" by simp
  moreover have "goesTo w [] w" by (rule goesTo_refl)
  moreover have "evaluated [] = map fst (reports [])" by simp
  moreover have "map snd (reports []) = replicate 0 False @ (if False then [True] else [])"
    by simp
  ultimately show ?case by fastforce
next
  case (Cons frame frames)
  show ?case
  proof (cases "frame = mainFrame E \<or> jsIncludes (frameUrl E frame w) ''sessionserver''")
    case True
    obtain b w' ext n where run: "otherFramesPass E username password frames w = (Ok b, w')"
      and go: "goesTo w ext w'" and e: "evaluated ext = map fst (reports ext)"
      and rp: "map snd (reports ext) = replicate n False @ (if b then [True] else [])"
      and only: "\<forall>f\<in>set (evaluated ext).
           f \<in> set frames \<and> f \<noteq> mainFrame E
           \<and> triedAt w ext w' (\<lambda>wc. \<not> jsIncludes (frameUrl E f wc) ''sessionserver'') f"
      and every: "\<not> b \<longrightarrow>
          (\<forall>f\<in>set frames.
             f \<noteq> mainFrame E \<and> (\<forall>wc pre. goesTo w pre wc
               \<longrightarrow> \<not> jsIncludes (frameUrl E f wc) ''sessionserver'')
             \<longrightarrow> f \<in> set (evaluated ext))"
      using Cons.IH [of w] by blast
    have "otherFramesPass E username password (frame # frames) w = (Ok b, w')"
      using True run by simp
    moreover have "\<forall>f\<in>set (evaluated ext).
           f \<in> set (frame # frames) \<and> f \<noteq> mainFrame E
           \<and> triedAt w ext w' (\<lambda>wc. \<not> jsIncludes (frameUrl E f wc) ''sessionserver'') f"
      using only by auto
    moreover have "\<not> b \<longrightarrow>
          (\<forall>f\<in>set (frame # frames).
             f \<noteq> mainFrame E \<and> (\<forall>wc pre. goesTo w pre wc
               \<longrightarrow> \<not> jsIncludes (frameUrl E f wc) ''sessionserver'')
             \<longrightarrow> f \<in> set (evaluated ext))"
    proof (intro impI ballI)
      fix f
      assume nb: "\<not> b" and f: "f \<in> set (frame # frames)"
        and el: "f \<noteq> mainFrame E \<and> (\<forall>wc pre. goesTo w pre wc
             \<longrightarrow> \<not> jsIncludes (frameUrl E f wc) ''sessionserver'')"
      have "\<not> jsIncludes (frameUrl E f w) ''sessionserver''"
        using el goesTo_refl by blast
      with True el have "f \<noteq> frame" by auto
      with f have "f \<in> set frames" by simp
      with every nb el show "f \<in> set (evaluated ext)" by blast
    qed
    ultimately show ?thesis using go e rp by blast
  next
    case False
    obtain r w1 ext1 n1 where fill: "waitAndFillFrame E frame username password 8000 w
        = (Ok r, w1)"
      and go1: "goesTo w ext1 w1" and e1: "evaluated ext1 = map fst (reports ext1)"
      and r1: "reports ext1 = replicate n1 (frame, False)
                 @ (if done' r then [(frame, True)] else [])"
      and n1: "0 < n1 \<or> done' r"
      using waitAndFillFrame_run [of 8000 E frame username password w] by auto
    obtain rest1 where first: "evaluated ext1 = frame # rest1"
      using attempts_first(1) [OF r1 e1 n1] by blast
    have only1: "set (evaluated ext1) = {frame}"
      using attempts_first(2) [OF r1 e1 n1] .
    have nm: "\<not> jsIncludes (frameUrl E frame w) ''sessionserver''" using False by simp
    have here: "triedAt w ext1 w1
        (\<lambda>wc. \<not> jsIncludes (frameUrl E frame wc) ''sessionserver'') frame"
      using go1 nm first by (rule triedAt_here)
    show ?thesis
    proof (cases "done' r")
      case True
      obtain ext2 w2 where l2: "logDebug E [S ''Login filled in frame:'', S (message r)] w1
          = (Ok (), w2)"
        and go2: "goesTo w1 ext2 w2" and e2: "evaluated ext2 = []" and r2: "reports ext2 = []"
        using logDebug_run by blast
      have "otherFramesPass E username password (frame # frames) w = (Ok True, w2)"
        using False fill True l2 by (simp add: seqIO_def bindIO_def ret_def)
      moreover have "goesTo w (ext1 @ ext2) w2" using goesTo_trans [OF go1 go2] .
      moreover have "evaluated (ext1 @ ext2) = map fst (reports (ext1 @ ext2))"
        using e1 e2 r2 by (simp add: evaluated_append reports_append)
      moreover have "map snd (reports (ext1 @ ext2))
          = replicate n1 False @ (if True then [True] else [])"
        using r1 r2 True by (simp add: reports_append)
      moreover have "\<forall>f\<in>set (evaluated (ext1 @ ext2)).
           f \<in> set (frame # frames) \<and> f \<noteq> mainFrame E
           \<and> triedAt w (ext1 @ ext2) w2 (\<lambda>wc. \<not> jsIncludes (frameUrl E f wc) ''sessionserver'') f"
      proof
        fix f assume "f \<in> set (evaluated (ext1 @ ext2))"
        then have "f = frame" using only1 e2 by (simp add: evaluated_append)
        then show "f \<in> set (frame # frames) \<and> f \<noteq> mainFrame E
           \<and> triedAt w (ext1 @ ext2) w2
                 (\<lambda>wc. \<not> jsIncludes (frameUrl E f wc) ''sessionserver'') f"
          using False triedAt_append [OF here go2] by simp
      qed
      ultimately show ?thesis by blast
    next
      case nd: False
      obtain b w' ext n where run: "otherFramesPass E username password frames w1 = (Ok b, w')"
        and go: "goesTo w1 ext w'" and e: "evaluated ext = map fst (reports ext)"
        and rp: "map snd (reports ext) = replicate n False @ (if b then [True] else [])"
        and only: "\<forall>f\<in>set (evaluated ext).
           f \<in> set frames \<and> f \<noteq> mainFrame E
           \<and> triedAt w1 ext w' (\<lambda>wc. \<not> jsIncludes (frameUrl E f wc) ''sessionserver'') f"
        and every: "\<not> b \<longrightarrow>
          (\<forall>f\<in>set frames.
             f \<noteq> mainFrame E \<and> (\<forall>wc pre. goesTo w1 pre wc
               \<longrightarrow> \<not> jsIncludes (frameUrl E f wc) ''sessionserver'')
             \<longrightarrow> f \<in> set (evaluated ext))"
        using Cons.IH [of w1] by blast
      have "otherFramesPass E username password (frame # frames) w = (Ok b, w')"
        using False fill nd run by simp
      moreover have "goesTo w (ext1 @ ext) w'" using goesTo_trans [OF go1 go] .
      moreover have "evaluated (ext1 @ ext) = map fst (reports (ext1 @ ext))"
        using e1 e by (simp add: evaluated_append reports_append)
      moreover have "map snd (reports (ext1 @ ext))
          = replicate (n1 + n) False @ (if b then [True] else [])"
        using r1 rp nd by (simp add: reports_append replicate_add)
      moreover have "\<forall>f\<in>set (evaluated (ext1 @ ext)).
           f \<in> set (frame # frames) \<and> f \<noteq> mainFrame E
           \<and> triedAt w (ext1 @ ext) w' (\<lambda>wc. \<not> jsIncludes (frameUrl E f wc) ''sessionserver'') f"
      proof
        fix f assume "f \<in> set (evaluated (ext1 @ ext))"
        then consider "f = frame" | "f \<in> set (evaluated ext)"
          using only1 by (auto simp: evaluated_append)
        then show "f \<in> set (frame # frames) \<and> f \<noteq> mainFrame E
           \<and> triedAt w (ext1 @ ext) w'
                 (\<lambda>wc. \<not> jsIncludes (frameUrl E f wc) ''sessionserver'') f"
        proof cases
          case 1
          then show ?thesis using False triedAt_append [OF here go] by simp
        next
          case 2
          with only have "f \<in> set frames" and "f \<noteq> mainFrame E"
            and "triedAt w1 ext w' (\<lambda>wc. \<not> jsIncludes (frameUrl E f wc) ''sessionserver'') f"
            by blast+
          then show ?thesis using triedAt_later [OF go1] by simp
        qed
      qed
      moreover have "\<not> b \<longrightarrow>
          (\<forall>f\<in>set (frame # frames).
             f \<noteq> mainFrame E \<and> (\<forall>wc pre. goesTo w pre wc
               \<longrightarrow> \<not> jsIncludes (frameUrl E f wc) ''sessionserver'')
             \<longrightarrow> f \<in> set (evaluated (ext1 @ ext)))"
      proof (intro impI ballI)
        fix f
        assume nb: "\<not> b" and f: "f \<in> set (frame # frames)"
          and el: "f \<noteq> mainFrame E \<and> (\<forall>wc pre. goesTo w pre wc
             \<longrightarrow> \<not> jsIncludes (frameUrl E f wc) ''sessionserver'')"
        show "f \<in> set (evaluated (ext1 @ ext))"
        proof (cases "f = frame")
          case True
          then show ?thesis using only1 by (simp add: evaluated_append)
        next
          case False
          with f have fin: "f \<in> set frames" by simp
          have "\<forall>wc pre. goesTo w1 pre wc
              \<longrightarrow> \<not> jsIncludes (frameUrl E f wc) ''sessionserver''"
            using el goesTo_trans [OF go1] by blast
          with every nb fin el have "f \<in> set (evaluated ext)" by blast
          then show ?thesis by (simp add: evaluated_append)
        qed
      qed
      ultimately show ?thesis by blast
    qed
  qed
qed


subsection \<open>A pass that is not done has used its whole wait\<close>




section \<open>What leaves the state file alone\<close>

lemma keepsI: "(\<And>w. stateFile (snd (m w)) = stateFile w) \<Longrightarrow> keeps m"
  by (simp add: keeps_def)

lemma keepsD: "keeps m \<Longrightarrow> m w = (r, w1) \<Longrightarrow> stateFile w1 = stateFile w"
  by (metis keeps_def snd_conv)

lemma keeps_ret: "keeps (ret x)"
  by (simp add: keeps_def ret_def)

lemma keeps_throwJs: "keeps (throwJs e)"
  by (simp add: keeps_def throwJs_def)

lemma keeps_bindIO: "keeps m \<Longrightarrow> (\<And>x. keeps (f x)) \<Longrightarrow> keeps (bindIO m f)"
proof (rule keepsI)
  fix w
  assume m: "keeps m" and f: "\<And>x. keeps (f x)"
  obtain r w1 where mw: "m w = (r, w1)" by (cases "m w")
  have s1: "stateFile w1 = stateFile w" using keepsD [OF m mw] .
  show "stateFile (snd (bindIO m f w)) = stateFile w"
  proof (cases r)
    case (Ok x)
    obtain r2 w2 where fw: "f x w1 = (r2, w2)" by (cases "f x w1")
    have "stateFile w2 = stateFile w1" using keepsD [OF f fw] .
    with s1 mw Ok fw show ?thesis by (simp add: bindIO_def)
  next
    case (Throw e)
    with s1 mw show ?thesis by (simp add: bindIO_def)
  next
    case NoReturn
    with s1 mw show ?thesis by (simp add: bindIO_def)
  qed
qed

lemma keeps_seqIO: "keeps m \<Longrightarrow> keeps n \<Longrightarrow> keeps (seqIO m n)"
  by (simp add: seqIO_def keeps_bindIO)

lemma keeps_tryCatch: "keeps m \<Longrightarrow> (\<And>e. keeps (h e)) \<Longrightarrow> keeps (tryCatch m h)"
proof (rule keepsI)
  fix w
  assume m: "keeps m" and h: "\<And>e. keeps (h e)"
  obtain r w1 where mw: "m w = (r, w1)" by (cases "m w")
  have s1: "stateFile w1 = stateFile w" using keepsD [OF m mw] .
  show "stateFile (snd (tryCatch m h w)) = stateFile w"
  proof (cases r)
    case (Throw e)
    obtain r2 w2 where hw: "h e w1 = (r2, w2)" by (cases "h e w1")
    have "stateFile w2 = stateFile w1" using keepsD [OF h hw] .
    with s1 mw Throw hw show ?thesis by (simp add: tryCatch_def)
  next
    case (Ok x)
    with s1 mw show ?thesis by (simp add: tryCatch_def)
  next
    case NoReturn
    with s1 mw show ?thesis by (simp add: tryCatch_def)
  qed
qed

lemma keeps_tryFinally: "keeps m \<Longrightarrow> keeps f \<Longrightarrow> keeps (tryFinally m f)"
proof (rule keepsI)
  fix w
  assume m: "keeps m" and f: "keeps f"
  obtain r w1 where mw: "m w = (r, w1)" by (cases "m w")
  have s1: "stateFile w1 = stateFile w" using keepsD [OF m mw] .
  obtain r2 w2 where fw: "f w1 = (r2, w2)" by (cases "f w1")
  have s2: "stateFile w2 = stateFile w1" using keepsD [OF f fw] .
  show "stateFile (snd (tryFinally m f w)) = stateFile w"
    using mw fw s1 s2 by (cases r; cases r2) (simp_all add: tryFinally_def)
qed

lemma keeps_whenIO: "keeps m \<Longrightarrow> keeps (whenIO b m)"
  by (simp add: whenIO_def keeps_ret)

lemma keeps_swallow: "keeps m \<Longrightarrow> keeps (swallow m)"
  by (simp add: swallow_def keeps_tryCatch keeps_ret)

lemma keeps_if: "keeps m \<Longrightarrow> keeps n \<Longrightarrow> keeps (if b then m else n)"
  by simp

lemma stateFile_emit: "stateFile (emit ev w) = stateFile w"
  by (simp add: emit_def)

lemma stateFile_call: "stateFile (call E ev w) = stateFile w"
  by (simp add: call_def Let_def emit_def)

lemma stateFile_sleep: "stateFile (sleep E ms w) = stateFile w"
  by (simp add: sleep_def Let_def emit_def)

lemma keeps_consoleLog: "keeps (consoleLog as)"
  by (simp add: keeps_def consoleLog_def stateFile_emit)

lemma keeps_consoleError: "keeps (consoleError as)"
  by (simp add: keeps_def consoleError_def stateFile_emit)

lemma keeps_logDebug: "keeps (logDebug E as)"
  by (simp add: logDebug_def keeps_whenIO keeps_consoleLog)

lemma keeps_delay: "keeps (delay E ms)"
  by (simp add: keeps_def delay_def stateFile_sleep)

lemma keeps_failing_call: "keeps (\<lambda>w. failing q (call E ev w))"
  by (simp add: keeps_def failing_def stateFile_call split: option.split)

lemma keeps_goto: "keeps (goto E u wu t)"
  unfolding goto_def by (rule keeps_failing_call)

lemma keeps_addCookies: "keeps (addCookies E cs)"
  unfolding addCookies_def by (rule keeps_failing_call)

lemma keeps_newPage: "keeps (newPage E)"
  unfolding newPage_def by (rule keeps_failing_call)

lemma keeps_waitForLoadState: "keeps (waitForLoadState E st)"
  unfolding waitForLoadState_def by (rule keeps_failing_call)

lemma keeps_waitForSelector: "keeps (waitForSelector E sel st t)"
  unfolding waitForSelector_def by (rule keeps_failing_call)

lemma keeps_url: "keeps (url E)"
  by (simp add: keeps_def url_def)

lemma keeps_waitForEnter: "keeps (waitForEnter E msg)"
  by (simp add: keeps_def waitForEnter_def Let_def stateFile_call)

lemma keeps_close: "keeps (close E)"
  by (simp add: keeps_def close_def stateFile_call)

lemma keeps_setExitCode: "keeps (setExitCode c)"
  by (simp add: keeps_def setExitCode_def)

lemma keeps_processExit: "keeps (processExit c)"
  by (simp add: keeps_def processExit_def stateFile_emit)

lemma keeps_launchPersistentContext: "keeps (launchPersistentContext E channel)"
  by (simp add: keeps_def launchPersistentContext_def Let_def stateFile_call split: option.split)

lemma keeps_mkdirAuth: "keeps (mkdirAuth E)"
  by (simp add: keeps_def mkdirAuth_def Let_def stateFile_emit split: option.split)

lemma keeps_mkdirProfile: "keeps (mkdirProfile E)"
  by (simp add: keeps_def mkdirProfile_def Let_def stateFile_emit split: option.split)

lemma keeps_fillLoginInFrame: "keeps (fillLoginInFrame E frame user pass)"
  by (simp add: keeps_def fillLoginInFrame_def Let_def stateFile_call stateFile_emit
      split: sum.split prod.split)

lemma keeps_waitAndFillFrame_try: "keeps (waitAndFillFrame_try E frame user pass)"
  unfolding waitAndFillFrame_try_def
  by (intro keeps_tryCatch keeps_bindIO keeps_fillLoginInFrame keeps_seqIO keeps_logDebug
      keeps_ret keeps_if)

lemma stateFile_waitAndFillFrame_loop:
  "stateFile (snd (waitAndFillFrame_loop E frame user pass maxWaitMs start w)) = stateFile w"
proof (induction E frame user pass maxWaitMs start w rule: waitAndFillFrame_loop.induct)
  case (1 E frame user pass maxWaitMs start w)
  obtain x w1 where att: "waitAndFillFrame_try E frame user pass w = (x, w1)"
    by (cases "waitAndFillFrame_try E frame user pass w")
  have s1: "stateFile w1 = stateFile w"
    using keepsD [OF keeps_waitAndFillFrame_try att] .
  show ?case
  proof (cases "clock w - start < maxWaitMs")
    case False
    then show ?thesis by (simp add: waitAndFillFrame_loop_over)
  next
    case True
    show ?thesis
    proof (cases x)
      case (Ok y)
      show ?thesis
      proof (cases y)
        case None
        have "stateFile (snd (waitAndFillFrame_loop E frame user pass maxWaitMs start
            (sleep E 500 w1))) = stateFile (sleep E 500 w1)"
          using "1.IH" [OF True att [symmetric]] Ok None by simp
        with s1 True att Ok None show ?thesis
          by (simp add: waitAndFillFrame_loop_again stateFile_sleep)
      next
        case (Some result)
        with s1 True att Ok show ?thesis by (simp add: waitAndFillFrame_loop_done)
      qed
    next
      case (Throw e)
      with s1 True att show ?thesis
        by (simp add: waitAndFillFrame_loop.simps [of E frame user pass maxWaitMs start w])
    next
      case NoReturn
      with s1 True att show ?thesis
        by (simp add: waitAndFillFrame_loop.simps [of E frame user pass maxWaitMs start w])
    qed
  qed
qed

lemma keeps_waitAndFillFrame: "keeps (waitAndFillFrame E frame user pass maxWaitMs)"
  by (simp add: keeps_def waitAndFillFrame_def stateFile_waitAndFillFrame_loop)

lemma keeps_fillSessionFrame: "keeps (fillSessionFrame E sessionFrame user pass)"
  unfolding fillSessionFrame_def
  by (intro keeps_seqIO keeps_logDebug keeps_waitAndFillFrame)

lemma stateFile_sessionFramePass:
  "stateFile (snd (sessionFramePass E username password maxWait pollStart w)) = stateFile w"
proof -
  show ?thesis
  proof (induction E username password maxWait pollStart w rule: sessionFramePass.induct)
    case (1 E username password maxWait pollStart w)
    show ?case
    proof (cases "clock w - pollStart < maxWait")
      case False
      then show ?thesis by (simp add: sessionFramePass_over)
    next
      case True
      show ?thesis
      proof (cases "sessionFrameOf E w")
        case None
        with True "1.IH"(1) [OF True None] show ?thesis
          by (simp add: sessionFramePass_absent stateFile_sleep)
      next
        case (Some sessionFrame)
        obtain result w1 ext1 where fill: "fillSessionFrame E sessionFrame username password w
            = (Ok result, w1)"
          using fillSessionFrame_run [of E sessionFrame username password w] by blast
        have s1: "stateFile w1 = stateFile w"
          using keepsD [OF keeps_fillSessionFrame fill] .
        show ?thesis
        proof (cases "done' result")
          case d: True
          have "keeps (seqIO (logDebug E [S ''Login filled in sessionserver iframe:'',
              S (message result)]) (ret True))"
            by (intro keeps_seqIO keeps_logDebug keeps_ret)
          then have "stateFile (snd (seqIO (logDebug E [S ''Login filled in sessionserver iframe:'',
              S (message result)]) (ret True) w1)) = stateFile w1"
            by (simp add: keeps_def)
          with True Some fill d s1 show ?thesis
            by (simp add: sessionFramePass_present)
        next
          case nd: False
          have "stateFile (snd (sessionFramePass E username password maxWait pollStart
              (sleep E 800 w1))) = stateFile (sleep E 800 w1)"
            using "1.IH"(2) [OF True Some fill [symmetric] refl nd] .
          with True Some fill nd s1 show ?thesis
            by (simp add: sessionFramePass_present stateFile_sleep)
        qed
      qed
    qed
  qed
qed

lemma keeps_mainFramePass: "keeps (mainFramePass E username password)"
  unfolding mainFramePass_def
  by (intro keeps_seqIO keeps_bindIO keeps_logDebug keeps_waitAndFillFrame keeps_if keeps_ret)

lemma stateFile_otherFramesPass:
  "stateFile (snd (otherFramesPass E username password frames w)) = stateFile w"
proof (induction frames arbitrary: w)
  case Nil
  show ?case by simp
next
  case (Cons frame frames)
  show ?case
  proof (cases "frame = mainFrame E \<or> jsIncludes (frameUrl E frame w) ''sessionserver''")
    case True
    with Cons.IH [of w] show ?thesis by simp
  next
    case False
    obtain r w1 where fill: "waitAndFillFrame E frame username password 8000 w = (r, w1)"
      by (cases "waitAndFillFrame E frame username password 8000 w")
    have s1: "stateFile w1 = stateFile w"
      using keepsD [OF keeps_waitAndFillFrame fill] .
    show ?thesis
    proof (cases r)
      case (Ok result)
      have "keeps (seqIO (logDebug E [S ''Login filled in frame:'', S (message result)])
          (ret True))"
        by (intro keeps_seqIO keeps_logDebug keeps_ret)
      then have "stateFile (snd (seqIO (logDebug E [S ''Login filled in frame:'',
          S (message result)]) (ret True) w1)) = stateFile w1"
        by (simp add: keeps_def)
      with False fill Ok s1 Cons.IH [of w1] show ?thesis by simp
    next
      case (Throw e)
      with False fill s1 show ?thesis by simp
    next
      case NoReturn
      with False fill s1 show ?thesis by simp
    qed
  qed
qed

lemma keeps_fillLogin: "keeps (fillLogin E username password)"
  unfolding fillLogin_def
  by (intro keeps_seqIO keeps_bindIO keeps_consoleLog keeps_if keeps_mainFramePass keeps_ret)
     (simp_all add: keeps_def stateFile_sessionFramePass stateFile_otherFramesPass)

lemma keeps_dashboardProbe: "keeps (dashboardProbe E base)"
  unfolding dashboardProbe_def Let_def
  by (intro keeps_seqIO keeps_bindIO keeps_consoleLog keeps_logDebug keeps_swallow keeps_goto
      keeps_delay keeps_url keeps_whenIO keeps_ret)

lemma keeps_entryProbe: "keeps (entryProbe E)"
  unfolding entryProbe_def Let_def
  by (intro keeps_seqIO keeps_bindIO keeps_consoleLog keeps_swallow keeps_goto
      keeps_delay keeps_url keeps_whenIO keeps_ret)

lemma keeps_loginPageProbe: "keeps (loginPageProbe E)"
  unfolding loginPageProbe_def Let_def
  by (intro keeps_seqIO keeps_bindIO keeps_consoleLog keeps_logDebug keeps_swallow keeps_goto
      keeps_delay keeps_url keeps_whenIO keeps_ret)

lemma keeps_savedProbe: "keeps (savedProbe E hasSavedState savedStateData)"
  unfolding savedProbe_def
  by (simp add: keeps_dashboardProbe keeps_entryProbe keeps_ret split: option.split)

lemma keeps_probe: "keeps (probe E hasSavedState savedStateData)"
  unfolding probe_def
  by (intro keeps_bindIO keeps_savedProbe keeps_if keeps_loginPageProbe keeps_ret)

lemma keeps_formNotFound: "keeps (formNotFound E)"
  unfolding formNotFound_def
  by (intro keeps_seqIO keeps_bindIO keeps_consoleLog keeps_whenIO keeps_url)

lemma keeps_finish_unfilled: "keeps (finish E False isLoggedInUrl)"
  unfolding finish_def
  by (intro keeps_seqIO keeps_whenIO keeps_waitForEnter)
     (simp add: keeps_formNotFound keeps_ret)

lemma stateFile_launchNamed:
  "stateFile (snd (launchNamed E channels w)) = stateFile w"
proof (induction channels arbitrary: w)
  case Nil
  show ?case by simp
next
  case (Cons channel channels)
  let ?m = "tryCatch
             (seqIO (launchPersistentContext E (Some channel))
             (seqIO (logDebug E [S ''Using browser channel:'', S channel])
                    (ret True)))
             (\<lambda>e. ret False)"
  have k: "keeps ?m"
    by (intro keeps_tryCatch keeps_seqIO keeps_launchPersistentContext keeps_logDebug keeps_ret)
  obtain r w1 where mw: "?m w = (r, w1)" by (cases "?m w")
  have s1: "stateFile w1 = stateFile w" using keepsD [OF k mw] .
  show ?case
  proof (cases r)
    case (Ok b)
    with mw s1 Cons.IH [of w1] show ?thesis by (cases b) simp_all
  next
    case (Throw e)
    with mw s1 show ?thesis by simp
  next
    case NoReturn
    with mw s1 show ?thesis by simp
  qed
qed

lemma keeps_launch: "keeps (launch E)"
proof -
  have "keeps (launchNamed E [''chrome'', ''msedge''])"
    by (rule keepsI) (rule stateFile_launchNamed)
  then show ?thesis
    unfolding launch_def
    by (intro keeps_bindIO keeps_whenIO keeps_seqIO keeps_launchPersistentContext keeps_logDebug)
qed

lemma keeps_loadSavedState: "keeps (loadSavedState E hasSavedState)"
  unfolding loadSavedState_def
  by (intro keeps_if keeps_bindIO keeps_seqIO keeps_whenIO keeps_addCookies keeps_consoleLog
      keeps_ret)
     (simp add: keeps_def liftSum_def ret_def throwJs_def split: sum.split)

lemma keeps_firstPage: "keeps (firstPage E)"
  using keeps_newPage [of E] by (simp add: keeps_def firstPage_def)

lemma keeps_ensureDirs: "keeps (ensureDirs E)"
  unfolding ensureDirs_def
proof (intro keeps_seqIO)
  show "keeps (\<lambda>w. whenIO (\<not> authDir w) (mkdirAuth E) w)"
    using keeps_mkdirAuth [of E] by (simp add: keeps_def whenIO_def ret_def)
  show "keeps (\<lambda>w. whenIO (\<not> profileDir w) (mkdirProfile E) w)"
    using keeps_mkdirProfile [of E] by (simp add: keeps_def whenIO_def ret_def)
qed

section \<open>The session state file\<close>

lemma startsWith_iff: "startsWith s t \<longleftrightarrow> (\<exists>ss. s = t @ ss)"
  by (induction s t rule: startsWith.induct) auto

lemma jsIncludes_iff: "jsIncludes s t \<longleftrightarrow> (\<exists>ps ss. s = ps @ t @ ss)"
proof (induction s)
  case Nil
  show ?case by auto
next
  case (Cons x xs)
  show ?case
  proof
    assume "jsIncludes (x # xs) t"
    then consider "startsWith (x # xs) t" | "jsIncludes xs t" by auto
    then show "\<exists>ps ss. x # xs = ps @ t @ ss"
    proof cases
      case 1
      then obtain ss where "x # xs = t @ ss" by (auto simp: startsWith_iff)
      then have "x # xs = [] @ t @ ss" by simp
      then show ?thesis by blast
    next
      case 2
      then obtain ps ss where "xs = ps @ t @ ss" using Cons.IH by auto
      then have "x # xs = (x # ps) @ t @ ss" by simp
      then show ?thesis by blast
    qed
  next
    assume "\<exists>ps ss. x # xs = ps @ t @ ss"
    then obtain ps ss where eq: "x # xs = ps @ t @ ss" by auto
    show "jsIncludes (x # xs) t"
    proof (cases ps)
      case Nil
      with eq have "startsWith (x # xs) t" by (auto simp: startsWith_iff)
      then show ?thesis by simp
    next
      case (Cons y ps')
      with eq have "xs = ps' @ t @ ss" by simp
      then have "jsIncludes xs t" using Cons.IH by auto
      then show ?thesis by simp
    qed
  qed
qed

lemma findJs_skip:
  "\<forall>c\<in>set pre. p c = Inr False \<Longrightarrow> findJs p (pre @ cs) = findJs p cs"
  by (induction pre) auto

lemma isLightningCookie_domain:
  "map_of kvs ''domain'' = Some (JStr d) \<Longrightarrow>
     isLightningCookie (JObj kvs) = Inr (jsIncludes d ''lightning.force.com'')"
  by (cases "d = []") (auto simp: isLightningCookie_def)

lemma jsIncludes_nonempty: "jsIncludes d t \<Longrightarrow> t \<noteq> [] \<Longrightarrow> d \<noteq> []"
  by (cases d) auto

text \<open>
  C4. A cookie list that is empty has no derived endpoint; a cookie list that consists of one
  cookie with domain \<open>foo.lightning.force.com\<close> has the endpoint
  \<open>https://foo.lightning.force.com\<close>; in general the first cookie whose domain contains
  \<open>lightning.force.com\<close> determines the endpoint, whatever follows it; and the artifact that
  \<open>loadStateFile\<close> returns carries the endpoint derived from its own cookie list.
\<close>

theorem deriveEndpoint_first_lightning_cookie:
  assumes one: "map_of kvs1 ''domain'' = Some (JStr ''foo.lightning.force.com'')"
    and before: "\<forall>c\<in>set pre. isLightningCookie c = Inr False"
    and dom: "map_of kvs ''domain'' = Some (JStr d)"
    and hit: "jsIncludes d ''lightning.force.com''"
    and loaded: "loadStateFile jsonParse toString rd = Inr a"
  shows "deriveEndpoint toString [] = Inr None
       \<and> deriveEndpoint toString [JObj kvs1] = Inr (Some ''https://foo.lightning.force.com'')
       \<and> deriveEndpoint toString (pre @ JObj kvs # post) = Inr (Some (''https://'' @ d))
       \<and> deriveEndpoint toString (cookies a) = Inr (lightningBaseUrl a)"
proof -
  have empty: "deriveEndpoint toString [] = Inr None"
    by (simp add: deriveEndpoint_def)
  have first: "deriveEndpoint toString (pre' @ JObj kvs' # post') = Inr (Some (''https://'' @ d'))"
    if "\<forall>c\<in>set pre'. isLightningCookie c = Inr False"
      and "map_of kvs' ''domain'' = Some (JStr d')"
      and "jsIncludes d' ''lightning.force.com''"
    for pre' kvs' post' d'
  proof -
    have "d' \<noteq> []" using that(3) by (rule jsIncludes_nonempty) simp
    moreover have "findJs isLightningCookie (pre' @ JObj kvs' # post') = Inr (Some (JObj kvs'))"
      using that by (simp add: findJs_skip isLightningCookie_domain)
    ultimately show ?thesis
      using that(2) by (simp add: deriveEndpoint_def template_def)
  qed
  have single: "deriveEndpoint toString [JObj kvs1] = Inr (Some ''https://foo.lightning.force.com'')"
    using first [of "[]" kvs1 "''foo.lightning.force.com''" "[]"] one by simp
  have own: "deriveEndpoint toString (cookies a) = Inr (lightningBaseUrl a)"
    using loaded empty
    by (auto simp: loadStateFile_def loadStateFile_try_def emptyArtifact_def
        split: sum.splits)
  from empty single first [OF before dom hit] own show ?thesis by simp
qed

theorem deriveEndpoint_first_lightning_cookie_witness:
  "deriveEndpoint (\<lambda>v. Inl TypeError) [] = Inr None
   \<and> deriveEndpoint (\<lambda>v. Inl TypeError)
        [JObj [(''name'', JStr ''sid''), (''domain'', JStr ''foo.lightning.force.com'')]]
       = Inr (Some ''https://foo.lightning.force.com'')
   \<and> deriveEndpoint (\<lambda>v. Inl TypeError)
        ([JObj [(''domain'', JStr ''test.salesforce.com'')], JStr ''x'']
          @ JObj [(''domain'', JStr ''bar.lightning.force.com'')] # [JNull])
       = Inr (Some (''https://'' @ ''bar.lightning.force.com''))
   \<and> deriveEndpoint (\<lambda>v. Inl TypeError)
        (cookies \<lparr>cookies = [JObj [(''domain'', JStr ''foo.lightning.force.com'')]],
                  lightningBaseUrl = Some ''https://foo.lightning.force.com''\<rparr>)
       = Inr (lightningBaseUrl
               \<lparr>cookies = [JObj [(''domain'', JStr ''foo.lightning.force.com'')]],
                lightningBaseUrl = Some ''https://foo.lightning.force.com''\<rparr>)"
proof (rule deriveEndpoint_first_lightning_cookie
    [where jsonParse = exampleParse and
      rd = \<open>Inr ''{"cookies":[{"domain":"foo.lightning.force.com"}]}''\<close>])
  show "map_of [(''name'', JStr ''sid''), (''domain'', JStr ''foo.lightning.force.com'')] ''domain''
      = Some (JStr ''foo.lightning.force.com'')"
    by simp
  show "\<forall>c\<in>set [JObj [(''domain'', JStr ''test.salesforce.com'')], JStr ''x''].
      isLightningCookie c = Inr False"
    by (simp add: isLightningCookie_def)
  show "map_of [(''domain'', JStr ''bar.lightning.force.com'')] ''domain''
      = Some (JStr ''bar.lightning.force.com'')"
    by simp
  show "jsIncludes ''bar.lightning.force.com'' ''lightning.force.com''"
    by simp
  show \<open>loadStateFile exampleParse (\<lambda>v. Inl TypeError)
      (Inr ''{"cookies":[{"domain":"foo.lightning.force.com"}]}'')
    = Inr \<lparr>cookies = [JObj [(''domain'', JStr ''foo.lightning.force.com'')]],
            lightningBaseUrl = Some ''https://foo.lightning.force.com''\<rparr>\<close>
    by (simp add: load_defs exampleParse_def)
qed

text \<open>
  C5. Loading the session state file never raises: \<open>loadStateFile\<close> always returns an
  artifact. When the file cannot be read (for one, when it does not exist), when its text
  is not JSON, or when anything else fails inside the \<open>try\<close> block, the artifact is the
  empty one: no cookies and no derived endpoint.
\<close>

theorem loadStateFile_never_raises:
  "(\<exists>a. loadStateFile jsonParse toString rd = Inr a)
   \<and> loadStateFile jsonParse toString (Inl e) = Inr \<lparr>cookies = [], lightningBaseUrl = None\<rparr>
   \<and> (jsonParse raw = Inl e \<longrightarrow>
        loadStateFile jsonParse toString (Inr raw) = Inr \<lparr>cookies = [], lightningBaseUrl = None\<rparr>)
   \<and> (loadStateFile_try jsonParse toString rd = Inl e \<longrightarrow>
        loadStateFile jsonParse toString rd = Inr \<lparr>cookies = [], lightningBaseUrl = None\<rparr>)
   \<and> (stateFile w = None \<longrightarrow>
        loadStateFile (parse E) (toStr E) (readFileSync E w)
          = Inr \<lparr>cookies = [], lightningBaseUrl = None\<rparr>)"
  by (simp add: loadStateFile_def loadStateFile_try_def emptyArtifact_def readFileSync_def
      split: sum.split)

theorem loadStateFile_never_raises_witness:
  "(\<exists>a. loadStateFile exampleParse (\<lambda>v. Inl TypeError) (Inr ''{\"cookies\":[null]}'') = Inr a)
   \<and> loadStateFile exampleParse (\<lambda>v. Inl TypeError) (Inl (JsError ''Error'' ''EACCES''))
       = Inr \<lparr>cookies = [], lightningBaseUrl = None\<rparr>
   \<and> loadStateFile exampleParse (\<lambda>v. Inl TypeError) (Inr ''not json'')
       = Inr \<lparr>cookies = [], lightningBaseUrl = None\<rparr>
   \<and> loadStateFile (\<lambda>raw. Inr (JObj [(''cookies'', JArr [JNull])])) (\<lambda>v. Inl TypeError) (Inr ''x'')
       = Inr \<lparr>cookies = [], lightningBaseUrl = None\<rparr>
   \<and> loadStateFile (parse loginEnv) (toStr loginEnv) (readFileSync loginEnv freshWorld)
       = Inr \<lparr>cookies = [], lightningBaseUrl = None\<rparr>"
proof -
  have a: "exampleParse ''not json'' = Inl (JsError ''SyntaxError'' ''Unexpected token'')"
    by (simp add: exampleParse_def)
  have b: "loadStateFile_try (\<lambda>raw. Inr (JObj [(''cookies'', JArr [JNull])])) (\<lambda>v. Inl TypeError)
      (Inr ''x'') = Inl TypeError"
    by (simp add: load_defs)
  have c: "stateFile freshWorld = None"
    by (simp add: freshWorld_def)
  show ?thesis
    using loadStateFile_never_raises
      [of exampleParse "\<lambda>v. Inl TypeError" "Inr ''{\"cookies\":[null]}''"
        "JsError ''Error'' ''EACCES''"]
      loadStateFile_never_raises
      [of exampleParse "\<lambda>v. Inl TypeError" "Inr ''x''"
        "JsError ''SyntaxError'' ''Unexpected token''" "''not json''"]
      loadStateFile_never_raises
      [of "\<lambda>raw. Inr (JObj [(''cookies'', JArr [JNull])])" "\<lambda>v. Inl TypeError" "Inr ''x''"
        TypeError "''x''" freshWorld loginEnv]
      a b c
    by simp
qed

section \<open>The probe with a saved state file\<close>

lemma trace_sleep_call: "trace (sleep E ms (call E ev w)) = trace w @ [ev, Sleep ms]"
  by (simp add: sleep_def call_def emit_def Let_def)

lemma entryProbe_result:
  "fst (entryProbe E w) =
     Ok (isLoggedInSaved
          (pageUrl E (sleep E 3000 (call E (Goto SALESFORCE_URL ''domcontentloaded'' 30000) w))))"
  by (simp add: entryProbe_def seqIO_def bindIO_def swallow_def tryCatch_def goto_def failing_def
      delay_def url_def ret_def whenIO_def consoleLog_def Let_def split: option.split)

lemma dashboardProbe_result:
  "\<exists>w0 pre. trace w0 = trace w @ pre \<and>
     fst (dashboardProbe E base w) =
       Ok (isLoggedInSaved
            (pageUrl E (sleep E 3000
               (call E (Goto (base @ ''/lightning/page/home'') ''domcontentloaded'' 30000) w0))))"
proof (cases "DEBUG E")
  case True
  let ?w0 = "emit (ConsoleLog [S ''[debug]'', S ''Dashboard URL from state:'',
                               S (base @ ''/lightning/page/home'')])
               (emit (ConsoleLog [S ''Loading saved session and opening dashboard...'']) w)"
  have "trace ?w0 = trace w @ [ConsoleLog [S ''Loading saved session and opening dashboard...''],
      ConsoleLog [S ''[debug]'', S ''Dashboard URL from state:'', S (base @ ''/lightning/page/home'')]]"
    by (simp add: emit_def)
  moreover have "fst (dashboardProbe E base w) =
       Ok (isLoggedInSaved
            (pageUrl E (sleep E 3000
               (call E (Goto (base @ ''/lightning/page/home'') ''domcontentloaded'' 30000) ?w0))))"
    using True
    by (simp add: dashboardProbe_def seqIO_def bindIO_def swallow_def tryCatch_def goto_def
        failing_def delay_def url_def ret_def whenIO_def consoleLog_def logDebug_def Let_def
        split: option.split)
  ultimately show ?thesis by blast
next
  case False
  let ?w0 = "emit (ConsoleLog [S ''Loading saved session and opening dashboard...'']) w"
  have "trace ?w0 = trace w @ [ConsoleLog [S ''Loading saved session and opening dashboard...'']]"
    by (simp add: emit_def)
  moreover have "fst (dashboardProbe E base w) =
       Ok (isLoggedInSaved
            (pageUrl E (sleep E 3000
               (call E (Goto (base @ ''/lightning/page/home'') ''domcontentloaded'' 30000) ?w0))))"
    using False
    by (simp add: dashboardProbe_def seqIO_def bindIO_def swallow_def tryCatch_def goto_def
        failing_def delay_def url_def ret_def whenIO_def consoleLog_def logDebug_def Let_def
        split: option.split)
  ultimately show ?thesis by blast
qed

text \<open>
  C3. With a saved state file, the URL is classified as logged in exactly when it does not
  contain \<open>login\<close> and contains \<open>lightning\<close> or \<open>my.salesforce.com\<close>. Stage 1 (the artifact
  has a derived endpoint) and stage 2 (it has none) both return this classification of the
  URL that the page has right after the navigation and the settle delay of 3000 ms, and
  neither raises.
\<close>

theorem saved_probe_classification:
  "(isLoggedInSaved u \<longleftrightarrow>
      (\<nexists>ps ss. u = ps @ ''login'' @ ss)
      \<and> ((\<exists>ps ss. u = ps @ ''lightning'' @ ss) \<or> (\<exists>ps ss. u = ps @ ''my.salesforce.com'' @ ss)))
   \<and> (base \<noteq> [] \<longrightarrow>
        (\<exists>wr pre. trace wr = trace w @ pre @ [Goto (base @ ''/lightning/page/home'')
                                                ''domcontentloaded'' 30000, Sleep 3000]
           \<and> fst (savedProbe E True (Some \<lparr>cookies = cs, lightningBaseUrl = Some base\<rparr>) w)
               = Ok (isLoggedInSaved (pageUrl E wr))))
   \<and> (\<exists>wr. trace wr = trace w @ [Goto SALESFORCE_URL ''domcontentloaded'' 30000, Sleep 3000]
         \<and> fst (savedProbe E True (Some \<lparr>cookies = cs, lightningBaseUrl = None\<rparr>) w)
             = Ok (isLoggedInSaved (pageUrl E wr)))"
proof (intro conjI impI)
  show "isLoggedInSaved u \<longleftrightarrow>
      (\<nexists>ps ss. u = ps @ ''login'' @ ss)
      \<and> ((\<exists>ps ss. u = ps @ ''lightning'' @ ss) \<or> (\<exists>ps ss. u = ps @ ''my.salesforce.com'' @ ss))"
    by (simp only: isLoggedInSaved_def jsIncludes_iff)
next
  assume base: "base \<noteq> []"
  obtain w0 pre where w0: "trace w0 = trace w @ pre"
    and r: "fst (dashboardProbe E base w) =
       Ok (isLoggedInSaved
            (pageUrl E (sleep E 3000
               (call E (Goto (base @ ''/lightning/page/home'') ''domcontentloaded'' 30000) w0))))"
    using dashboardProbe_result [of w E base] by blast
  let ?wr = "sleep E 3000 (call E (Goto (base @ ''/lightning/page/home'') ''domcontentloaded'' 30000) w0)"
  have "trace ?wr = trace w @ pre @ [Goto (base @ ''/lightning/page/home'') ''domcontentloaded'' 30000,
      Sleep 3000]"
    by (simp add: trace_sleep_call w0)
  moreover have "fst (savedProbe E True (Some \<lparr>cookies = cs, lightningBaseUrl = Some base\<rparr>) w)
      = Ok (isLoggedInSaved (pageUrl E ?wr))"
    using base r by (simp add: savedProbe_def)
  ultimately show "\<exists>wr pre. trace wr = trace w @ pre @ [Goto (base @ ''/lightning/page/home'')
                                                ''domcontentloaded'' 30000, Sleep 3000]
           \<and> fst (savedProbe E True (Some \<lparr>cookies = cs, lightningBaseUrl = Some base\<rparr>) w)
               = Ok (isLoggedInSaved (pageUrl E wr))"
    by blast
next
  let ?wr = "sleep E 3000 (call E (Goto SALESFORCE_URL ''domcontentloaded'' 30000) w)"
  have "trace ?wr = trace w @ [Goto SALESFORCE_URL ''domcontentloaded'' 30000, Sleep 3000]"
    by (simp add: trace_sleep_call)
  moreover have "fst (savedProbe E True (Some \<lparr>cookies = cs, lightningBaseUrl = None\<rparr>) w)
      = Ok (isLoggedInSaved (pageUrl E ?wr))"
    by (simp add: savedProbe_def entryProbe_result)
  ultimately show "\<exists>wr. trace wr = trace w @ [Goto SALESFORCE_URL ''domcontentloaded'' 30000, Sleep 3000]
         \<and> fst (savedProbe E True (Some \<lparr>cookies = cs, lightningBaseUrl = None\<rparr>) w)
             = Ok (isLoggedInSaved (pageUrl E wr))"
    by blast
qed

theorem saved_probe_classification_witness:
  "(\<nexists>ps ss. ''https://foo.lightning.force.com/lightning/page/home'' = ps @ ''login'' @ ss)
   \<and> ((\<exists>ps ss. ''https://foo.lightning.force.com/lightning/page/home'' = ps @ ''lightning'' @ ss)
      \<or> (\<exists>ps ss. ''https://foo.lightning.force.com/lightning/page/home''
            = ps @ ''my.salesforce.com'' @ ss))
   \<and> (\<exists>wr pre. trace wr = trace freshWorld @ pre
            @ [Goto (''https://foo.lightning.force.com'' @ ''/lightning/page/home'')
                 ''domcontentloaded'' 30000, Sleep 3000]
         \<and> fst (savedProbe loginEnv True
                  (Some \<lparr>cookies = [], lightningBaseUrl = Some ''https://foo.lightning.force.com''\<rparr>)
                  freshWorld)
             = Ok (isLoggedInSaved (pageUrl loginEnv wr)))
   \<and> (\<exists>wr. trace wr = trace freshWorld @ [Goto SALESFORCE_URL ''domcontentloaded'' 30000, Sleep 3000]
         \<and> fst (savedProbe loginEnv True (Some \<lparr>cookies = [], lightningBaseUrl = None\<rparr>)
                  freshWorld)
             = Ok (isLoggedInSaved (pageUrl loginEnv wr)))"
proof -
  have yes: "isLoggedInSaved ''https://foo.lightning.force.com/lightning/page/home''"
    by (simp add: isLoggedInSaved_def)
  have ne: "''https://foo.lightning.force.com'' \<noteq> []" by simp
  show ?thesis
    using saved_probe_classification
      [of "''https://foo.lightning.force.com/lightning/page/home''"
        "''https://foo.lightning.force.com''" freshWorld loginEnv "[]"]
      yes ne
    by blast
qed

section \<open>One attempt to fill the form\<close>

text \<open>
  An attempt that returns reports \<open>done\<close> exactly when both fields were found; an attempt
  that is not done names the missing field and has touched nothing.
\<close>

lemma pageFunction_returns:
  assumes "pageFunction doc username password = (Inr result, es)"
  shows "done' result \<longleftrightarrow>
           (\<exists>u p. firstOf (querySelector doc []) usernameSelectors = Inr (Some u)
                  \<and> firstOf (querySelector doc []) passwordSelectors = Inr (Some p))"
    and "\<not> done' result \<Longrightarrow> es = []"
  using assms
  by (auto simp: pageFunction_def split: sum.splits option.splits prod.splits)

text \<open>
  C10 fails on the code where line 188 throws. The page
  \<open><form><input type="email"><input type="password"><button name="submit">Log in</button></form>\<close>
  has both fields, found by the selectors \<open>input[type="email"]\<close> and
  \<open>input[type="password"]\<close>; no selector for a submit control matches, and the form is found
  from the username field. The attempt focuses and sets both fields and notifies the page,
  and then \<open>form.submit()\<close> throws a \<open>TypeError\<close>, since \<open>form.submit\<close> is the button. So the
  attempt reports neither \<open>done\<close> nor a missing field: \<open>frame.evaluate\<close> is rejected, nothing
  is clicked or submitted, \<open>waitAndFillFrame\<close> catches the error and ends with \<open>timeout\<close>,
  not done, the three passes end with \<open>loginFilled\<close> false, and the run prints
  \<open>Already logged in (session from cookies).\<close> and leaves no state file.
\<close>

theorem shadowed_submit_attempt_throws:
  "firstOf (querySelector shadowedSubmitDocument []) usernameSelectors = Inr (Some 1)
   \<and> firstOf (querySelector shadowedSubmitDocument []) passwordSelectors = Inr (Some 2)
   \<and> pageFunction shadowedSubmitDocument ''user'' ''hunter2'' =
       (Inl (JsError ''TypeError'' ''form.submit is not a function''),
        [Focus 1, SetValue 1 ''user'', Dispatch 1 ''input'', Dispatch 1 ''change'',
         Focus 2, SetValue 2 ''hunter2'', Dispatch 2 ''input'', Dispatch 2 ''change''])
   \<and> fst (fillLoginInFrame shadowedSubmitEnv 0 ''user'' ''hunter2'' freshWorld) =
       Throw (JsError ''TypeError'' ''form.submit is not a function'')
   \<and> trace (snd (fillLoginInFrame shadowedSubmitEnv 0 ''user'' ''hunter2'' freshWorld)) =
       [Evaluate 0,
        Evaluated 0
          [Focus 1, SetValue 1 ''user'', Dispatch 1 ''input'', Dispatch 1 ''change'',
           Focus 2, SetValue 2 ''hunter2'', Dispatch 2 ''input'', Dispatch 2 ''change'']
          (Inl (JsError ''TypeError'' ''form.submit is not a function''))]
   \<and> fst (waitAndFillFrame shadowedSubmitEnv 0 ''user'' ''hunter2'' 15000 freshWorld) =
       Ok \<lparr>done' = False, message = ''timeout''\<rparr>
   \<and> reports (trace (snd (waitAndFillFrame shadowedSubmitEnv 0 ''user'' ''hunter2'' 15000
                            freshWorld))) = [(0, False)]
   \<and> fst (fillLogin shadowedSubmitEnv ''user'' ''hunter2'' freshWorld) = Ok False
   \<and> consoleOf (trace (snd (main shadowedSubmitEnv freshWorld))) =
       [ConsoleLog [S ''Using credentials from .env (username length:'', N 4, S '')''],
        ConsoleLog [S ''Entering credentials in UI: username'', S ''user'',
                    S ''password'', S ''hunter2''],
        ConsoleLog [S ''Already logged in (session from cookies).'']]
   \<and> stateFile (snd (main shadowedSubmitEnv freshWorld)) = None"
  by (simp add: main_defs load_defs probe_defs fill_defs shadowedSubmitEnv_def
      shadowedSubmitDocument_def loginEnv_def exampleParse_def freshWorld_def io_defs Let_def)

section \<open>Launching the browser\<close>

lemma launches_append: "launches (xs @ ys) = launches xs @ launches ys"
  by (induction xs rule: launches.induct) auto

text \<open>
  C6. The launch tries \<open>chrome\<close>, then \<open>msedge\<close>, then the bundled engine, and stops at the
  first that starts. A failure of a named engine is swallowed and the next engine is tried;
  the bundled engine is tried only after both named engines have failed; and the launch
  raises exactly when the bundled engine fails too, with the error of the bundled engine.
\<close>

theorem launch_ordered_fallback:
  assumes w1: "w1 = call E (Launch (Some ''chrome'')) w"
    and w2: "w2 = call E (Launch (Some ''msedge'')) w1"
    and w3: "w3 = call E (Launch None) w2"
  shows "(launchFails E w1 = None \<longrightarrow>
            fst (launch E w) = Ok ()
            \<and> launches (trace (snd (launch E w))) = launches (trace w) @ [Some ''chrome'']
            \<and> contextOpen (snd (launch E w)))
       \<and> (launchFails E w1 \<noteq> None \<and> launchFails E w2 = None \<longrightarrow>
            fst (launch E w) = Ok ()
            \<and> launches (trace (snd (launch E w)))
                = launches (trace w) @ [Some ''chrome'', Some ''msedge'']
            \<and> contextOpen (snd (launch E w)))
       \<and> (launchFails E w1 \<noteq> None \<and> launchFails E w2 \<noteq> None \<and> launchFails E w3 = None \<longrightarrow>
            fst (launch E w) = Ok ()
            \<and> launches (trace (snd (launch E w)))
                = launches (trace w) @ [Some ''chrome'', Some ''msedge'', None]
            \<and> contextOpen (snd (launch E w)))
       \<and> (launchFails E w1 \<noteq> None \<and> launchFails E w2 \<noteq> None \<and> launchFails E w3 = Some e \<longrightarrow>
            launch E w = (Throw e, w3)
            \<and> trace w3 = trace w @ [Launch (Some ''chrome''), Launch (Some ''msedge''), Launch None])
       \<and> ((\<exists>err. fst (launch E w) = Throw err) \<longleftrightarrow>
            launchFails E w1 \<noteq> None \<and> launchFails E w2 \<noteq> None \<and> launchFails E w3 \<noteq> None)"
proof -
  have t1: "trace w1 = trace w @ [Launch (Some ''chrome'')]"
    by (simp add: w1 call_def emit_def Let_def)
  have t2: "trace w2 = trace w @ [Launch (Some ''chrome''), Launch (Some ''msedge'')]"
    by (simp add: w2 t1 call_def emit_def Let_def)
  have t3: "trace w3 = trace w @ [Launch (Some ''chrome''), Launch (Some ''msedge''), Launch None]"
    by (simp add: w3 t2 call_def emit_def Let_def)
  have a: "launches (trace (snd (launch E w))) = launches (trace w) @ [Some ''chrome'']
      \<and> fst (launch E w) = Ok () \<and> contextOpen (snd (launch E w))"
    if "launchFails E w1 = None"
    using that t1 unfolding w1
    by (cases "DEBUG E")
       (simp_all add: launch_def launchPersistentContext_def bindIO_def seqIO_def tryCatch_def
        whenIO_def logDebug_def consoleLog_def ret_def emit_def Let_def launches_append)
  have b: "launches (trace (snd (launch E w))) = launches (trace w) @ [Some ''chrome'', Some ''msedge'']
      \<and> fst (launch E w) = Ok () \<and> contextOpen (snd (launch E w))"
    if "launchFails E w1 \<noteq> None" and "launchFails E w2 = None"
    using that t2 unfolding w1 w2
    by (cases "DEBUG E")
       (auto simp add: launch_def launchPersistentContext_def bindIO_def seqIO_def tryCatch_def
        whenIO_def logDebug_def consoleLog_def ret_def emit_def Let_def launches_append)
  have c: "launches (trace (snd (launch E w)))
        = launches (trace w) @ [Some ''chrome'', Some ''msedge'', None]
      \<and> fst (launch E w) = Ok () \<and> contextOpen (snd (launch E w))"
    if "launchFails E w1 \<noteq> None" and "launchFails E w2 \<noteq> None" and "launchFails E w3 = None"
    using that t3 unfolding w1 w2 w3
    by (cases "DEBUG E")
       (auto simp add: launch_def launchPersistentContext_def bindIO_def seqIO_def tryCatch_def
        whenIO_def logDebug_def consoleLog_def ret_def emit_def Let_def launches_append)
  have d: "launch E w = (Throw err, w3)"
    if "launchFails E w1 \<noteq> None" and "launchFails E w2 \<noteq> None" and "launchFails E w3 = Some err"
    for err
    using that unfolding w1 w2 w3
    by (auto simp add: launch_def launchPersistentContext_def bindIO_def seqIO_def tryCatch_def
        whenIO_def ret_def Let_def)
  have iff: "(\<exists>err. fst (launch E w) = Throw err) \<longleftrightarrow>
      launchFails E w1 \<noteq> None \<and> launchFails E w2 \<noteq> None \<and> launchFails E w3 \<noteq> None"
  proof (cases "launchFails E w1")
    case None
    with a show ?thesis by simp
  next
    case s1: (Some e1)
    show ?thesis
    proof (cases "launchFails E w2")
      case None
      with s1 b show ?thesis by simp
    next
      case s2: (Some e2)
      show ?thesis
      proof (cases "launchFails E w3")
        case None
        with s1 s2 c show ?thesis by simp
      next
        case (Some e3)
        with s1 s2 d [of e3] show ?thesis by simp
      qed
    qed
  qed
  from a b c d [of e] t3 iff show ?thesis by simp
qed

theorem launch_ordered_fallback_witness:
  "fst (launch edgeOnlyEnv freshWorld) = Ok ()
   \<and> launches (trace (snd (launch edgeOnlyEnv freshWorld)))
       = launches (trace freshWorld) @ [Some ''chrome'', Some ''msedge'']
   \<and> contextOpen (snd (launch edgeOnlyEnv freshWorld))
   \<and> fst (launch noBrowserEnv freshWorld) = Throw (JsError ''Error'' ''executable not found'')
   \<and> trace (snd (launch noBrowserEnv freshWorld))
       = trace freshWorld @ [Launch (Some ''chrome''), Launch (Some ''msedge''), Launch None]
   \<and> (\<exists>err. fst (launch noBrowserEnv freshWorld) = Throw err)"
proof -
  have a: "launchFails edgeOnlyEnv (call edgeOnlyEnv (Launch (Some ''chrome'')) freshWorld) \<noteq> None"
    by (simp add: edgeOnlyEnv_def call_def emit_def Let_def)
  have b: "launchFails edgeOnlyEnv
      (call edgeOnlyEnv (Launch (Some ''msedge''))
        (call edgeOnlyEnv (Launch (Some ''chrome'')) freshWorld)) = None"
    by (simp add: edgeOnlyEnv_def call_def emit_def Let_def)
  have c: "launchFails noBrowserEnv w = Some (JsError ''Error'' ''executable not found'')" for w
    by (simp add: noBrowserEnv_def)
  show ?thesis
    using launch_ordered_fallback [OF refl refl refl, of edgeOnlyEnv freshWorld]
      launch_ordered_fallback [OF refl refl refl, of noBrowserEnv freshWorld
        "JsError ''Error'' ''executable not found''"]
      a b c
    by simp
qed

section \<open>The three passes, in order\<close>




section \<open>A state file that is empty or cannot be parsed\<close>

lemma entryProbe_run:
  "entryProbe E w =
     (let wr = sleep E 3000 (call E (Goto SALESFORCE_URL ''domcontentloaded'' 30000) w) in
      if isLoggedInSaved (pageUrl E wr)
      then (Ok True, emit (ConsoleLog [S ''Already logged in.'']) wr)
      else (Ok False, wr))"
  by (simp add: entryProbe_def seqIO_def bindIO_def swallow_def tryCatch_def goto_def failing_def
      delay_def url_def ret_def whenIO_def consoleLog_def Let_def split: option.split)

lemma loginPageProbe_result:
  "fst (loginPageProbe E w) =
     (let wg = call E (Goto SALESFORCE_URL ''load'' 60000) w;
          ws = sleep E 5000 (snd (logDebug E [S ''URL after goto:'', S (pageUrl E wg)] wg))
      in case gotoFails E wg of
           Some e \<Rightarrow> Throw e
         | None \<Rightarrow> Ok (isLoggedInLogin (pageUrl E ws)))"
  by (cases "DEBUG E")
     (simp_all add: loginPageProbe_def goto_def failing_def seqIO_def bindIO_def url_def delay_def
        logDebug_def whenIO_def consoleLog_def ret_def swallow_def tryCatch_def Let_def
        split: option.split)

text \<open>Lines 110 to 116 on such a file: the empty artifact, no cookie added, nothing logged.\<close>

lemma loadSavedState_empty:
  assumes "stateFile w = Some raw"
    and "(\<forall>w'. readFails E w' \<noteq> None) \<or> (\<exists>e. parse E raw = Inl e)
         \<or> (\<exists>data. parse E raw = Inr data \<and> cookiesOf data = Inr [])"
  shows "loadSavedState E True w = (Ok (Some emptyArtifact), w)"
proof -
  have "readFails E w \<noteq> None \<or> (\<exists>e. parse E raw = Inl e)
         \<or> (\<exists>data. parse E raw = Inr data \<and> cookiesOf data = Inr [])"
    using assms(2) by blast
  with assms(1) have "loadStateFile (parse E) (toStr E) (readFileSync E w) = Inr emptyArtifact"
    by (auto simp: loadStateFile_def loadStateFile_try_def readFileSync_def emptyArtifact_def
        deriveEndpoint_def split: sum.split option.split)
  then show ?thesis
    by (simp add: loadSavedState_def bindIO_def seqIO_def liftSum_def ret_def whenIO_def
        emptyArtifact_def)
qed

text \<open>Line 75 and lines 93 to 294: the file is looked for before the browser is launched.\<close>

lemma session_with_empty_file:
  assumes exists: "stateFile w = Some raw"
    and empty: "(\<forall>w'. readFails E w' \<noteq> None) \<or> (\<exists>e. parse E raw = Inl e)
         \<or> (\<exists>data. parse E raw = Inr data \<and> cookiesOf data = Inr [])"
  shows "session E username password w =
           seqIO (launch E) (seqIO (firstPage E)
             (guarded E (flow E username password True (Some emptyArtifact)))) w"
proof -
  obtain r wl where l: "launch E w = (r, wl)" by (cases "launch E w")
  have "stateFile wl = Some raw" using keepsD [OF keeps_launch l] exists by simp
  then have "loadSavedState E True wl = (Ok (Some emptyArtifact), wl)"
    using empty by (rule loadSavedState_empty)
  then show ?thesis
    using l exists by (cases r) (simp_all add: session_def bindIO_def seqIO_def)
qed

lemma session_without_file:
  assumes "stateFile w = None"
  shows "session E username password w =
           seqIO (launch E) (seqIO (firstPage E)
             (guarded E (flow E username password False None))) w"
proof -
  obtain r wl where l: "launch E w = (r, wl)" by (cases "launch E w")
  show ?thesis
    using l assms
    by (cases r) (simp_all add: session_def bindIO_def seqIO_def loadSavedState_def ret_def)
qed

lemma flow_with_empty_file:
  "flow E username password True (Some emptyArtifact) =
     bindIO (entryProbe E) (\<lambda>isLoggedInUrl.
       if isLoggedInUrl then finish E False True
       else bindIO (loginPageProbe E) (\<lambda>isLoggedInUrl.
              bindIO (if \<not> isLoggedInUrl then fillLogin E username password else ret False)
                (\<lambda>loginFilled. finish E loginFilled isLoggedInUrl)))"
proof
  fix w
  obtain r w1 where e: "entryProbe E w = (r, w1)" by (cases "entryProbe E w")
  show "flow E username password True (Some emptyArtifact) w =
     bindIO (entryProbe E) (\<lambda>isLoggedInUrl.
       if isLoggedInUrl then finish E False True
       else bindIO (loginPageProbe E) (\<lambda>isLoggedInUrl.
              bindIO (if \<not> isLoggedInUrl then fillLogin E username password else ret False)
                (\<lambda>loginFilled. finish E loginFilled isLoggedInUrl))) w"
  proof (cases r)
    case (Ok b)
    with e show ?thesis
      by (cases b)
         (simp_all add: flow_def probe_def savedProbe_def emptyArtifact_def bindIO_def ret_def)
  next
    case (Throw x)
    with e show ?thesis
      by (simp add: flow_def probe_def savedProbe_def emptyArtifact_def bindIO_def ret_def)
  next
    case NoReturn
    with e show ?thesis
      by (simp add: flow_def probe_def savedProbe_def emptyArtifact_def bindIO_def ret_def)
  qed
qed

lemma flow_without_file:
  "flow E username password False None =
     bindIO (loginPageProbe E) (\<lambda>isLoggedInUrl.
       bindIO (if \<not> isLoggedInUrl then fillLogin E username password else ret False)
         (\<lambda>loginFilled. finish E loginFilled isLoggedInUrl))"
proof
  fix w
  obtain r w1 where e: "loginPageProbe E w = (r, w1)" by (cases "loginPageProbe E w")
  show "flow E username password False None w =
     bindIO (loginPageProbe E) (\<lambda>isLoggedInUrl.
       bindIO (if \<not> isLoggedInUrl then fillLogin E username password else ret False)
         (\<lambda>loginFilled. finish E loginFilled isLoggedInUrl)) w"
    using e by (cases r) (simp_all add: flow_def probe_def savedProbe_def bindIO_def ret_def)
qed

lemma seqIO_same_file:
  assumes m: "keeps m"
    and fg: "\<And>w1. stateFile w1 = stateFile w \<Longrightarrow> f w1 = g w1"
  shows "seqIO m f w = seqIO m g w"
proof -
  obtain r w1 where mw: "m w = (r, w1)" by (cases "m w")
  have "f w1 = g w1" using fg keepsD [OF m mw] by simp
  with mw show ?thesis by (cases r) (simp_all add: seqIO_def bindIO_def)
qed

text \<open>
  C1, as the code has it, for whole runs. \<open>start body\<close> is the run up to the \<open>try\<close> block with
  \<open>body\<close> in it: the console line, the directories, the launch of the browser and the first
  page. \<open>login\<close> is what a run without a state file does in the block: the probe of the
  login page, then the filling of the form when that probe says "not logged in", then the
  end of the run.

  When the state file exists (line 75) but cannot be read or parsed, or holds no cookies,
  no cookie is added to the context, nothing is logged about the file, and the probe of
  the derived endpoint (stage 1) is skipped, as without a file. But the run is not the run
  without a file: in the \<open>try\<close> block it first runs stage 2, which opens the entry URL
  waiting for \<open>domcontentloaded\<close>, settles for 3000 ms and classifies the URL as in stages
  1 and 2; when that says "logged in" the run ends there, and only otherwise does it go on
  with \<open>login\<close>, which is all that the run without a state file does. The probe of the
  login page opens the entry URL waiting for \<open>load\<close>, for at most 60000 ms, and is rejected
  when that fails; else it settles for 5000 ms and classifies the URL with the test of
  lines 155 and 156.
\<close>

theorem empty_state_file_run:
  assumes user: "username = trim (envOr (SF_USERNAME E))"
    and pass: "password = trim (envOr (SF_PASSWORD E))"
    and creds: "username \<noteq> [] \<and> password \<noteq> []"
    and exists: "stateFile w = Some raw"
    and empty: "(\<forall>w1. readFails E w1 \<noteq> None) \<or> (\<exists>e. parse E raw = Inl e)
                \<or> (\<exists>data. parse E raw = Inr data \<and> cookiesOf data = Inr [])"
    and absent: "stateFile w' = None"
    and start: "start = (\<lambda>body.
        seqIO (consoleLog [S ''Using credentials from .env (username length:'',
                           N (length username), S '')''])
       (seqIO (ensureDirs E)
       (seqIO (launch E)
       (seqIO (firstPage E)
              (guarded E body)))))"
    and login: "login =
        bindIO (loginPageProbe E) (\<lambda>isLoggedInUrl.
        bindIO (if \<not> isLoggedInUrl then fillLogin E username password else ret False)
          (\<lambda>loginFilled. finish E loginFilled isLoggedInUrl))"
    and wr: "wr = sleep E 3000 (call E (Goto SALESFORCE_URL ''domcontentloaded'' 30000) wp)"
    and wg: "wg = call E (Goto SALESFORCE_URL ''load'' 60000) wq"
    and ws: "ws = sleep E 5000 (snd (logDebug E [S ''URL after goto:'', S (pageUrl E wg)] wg))"
  shows "main E w =
           start (bindIO (entryProbe E) (\<lambda>isLoggedInUrl.
                    if isLoggedInUrl
                    then whenIO (HEADED E) (waitForEnter E ''Press Enter to close the browser...'')
                    else login)) w
       \<and> main E w' = start login w'
       \<and> entryProbe E wp =
           (if isLoggedInSaved (pageUrl E wr)
            then (Ok True, emit (ConsoleLog [S ''Already logged in.'']) wr)
            else (Ok False, wr))
       \<and> fst (loginPageProbe E wq) =
           (case gotoFails E wg of
              Some e \<Rightarrow> Throw e
            | None \<Rightarrow> Ok (isLoggedInLogin (pageUrl E ws)))"
proof -
  let ?line = "consoleLog [S ''Using credentials from .env (username length:'',
                           N (length username), S '')'']"
  have m: "\<And>w0. main E w0 = seqIO ?line (seqIO (ensureDirs E) (session E username password)) w0"
    using user pass creds by (simp add: main_def Let_def)
  have fin: "finish E False True
      = whenIO (HEADED E) (waitForEnter E ''Press Enter to close the browser...'')"
    by (simp add: finish_def seqIO_def bindIO_def ret_def fun_eq_iff)
  have a: "main E w =
      seqIO ?line (seqIO (ensureDirs E) (seqIO (launch E) (seqIO (firstPage E)
        (guarded E (flow E username password True (Some emptyArtifact)))))) w"
    unfolding m
  proof (rule seqIO_same_file [OF keeps_consoleLog])
    fix w1 :: world assume s1: "stateFile w1 = stateFile w"
    show "seqIO (ensureDirs E) (session E username password) w1 =
        seqIO (ensureDirs E) (seqIO (launch E) (seqIO (firstPage E)
          (guarded E (flow E username password True (Some emptyArtifact))))) w1"
    proof (rule seqIO_same_file [OF keeps_ensureDirs])
      fix w2 :: world assume "stateFile w2 = stateFile w1"
      with s1 exists have "stateFile w2 = Some raw" by simp
      then show "session E username password w2 =
          seqIO (launch E) (seqIO (firstPage E)
            (guarded E (flow E username password True (Some emptyArtifact)))) w2"
        using empty by (rule session_with_empty_file)
    qed
  qed
  have b: "main E w' =
      seqIO ?line (seqIO (ensureDirs E) (seqIO (launch E) (seqIO (firstPage E)
        (guarded E (flow E username password False None))))) w'"
    unfolding m
  proof (rule seqIO_same_file [OF keeps_consoleLog])
    fix w1 :: world assume s1: "stateFile w1 = stateFile w'"
    show "seqIO (ensureDirs E) (session E username password) w1 =
        seqIO (ensureDirs E) (seqIO (launch E) (seqIO (firstPage E)
          (guarded E (flow E username password False None)))) w1"
    proof (rule seqIO_same_file [OF keeps_ensureDirs])
      fix w2 :: world assume "stateFile w2 = stateFile w1"
      with s1 absent have "stateFile w2 = None" by simp
      then show "session E username password w2 =
          seqIO (launch E) (seqIO (firstPage E)
            (guarded E (flow E username password False None))) w2"
        by (rule session_without_file)
    qed
  qed
  have c: "entryProbe E wp =
           (if isLoggedInSaved (pageUrl E wr)
            then (Ok True, emit (ConsoleLog [S ''Already logged in.'']) wr)
            else (Ok False, wr))"
    by (simp add: entryProbe_run wr Let_def)
  have d: "fst (loginPageProbe E wq) =
           (case gotoFails E wg of
              Some e \<Rightarrow> Throw e
            | None \<Rightarrow> Ok (isLoggedInLogin (pageUrl E ws)))"
    unfolding ws wg by (simp add: loginPageProbe_result Let_def)
  show ?thesis
    using a b c d unfolding flow_with_empty_file flow_without_file fin start login by simp
qed

theorem empty_state_file_run_witness:
  "main loginEnv brokenFileWorld =
     seqIO (consoleLog [S ''Using credentials from .env (username length:'', N 4, S '')''])
    (seqIO (ensureDirs loginEnv)
    (seqIO (launch loginEnv)
    (seqIO (firstPage loginEnv)
           (guarded loginEnv
              (bindIO (entryProbe loginEnv) (\<lambda>isLoggedInUrl.
                 if isLoggedInUrl
                 then whenIO (HEADED loginEnv)
                        (waitForEnter loginEnv ''Press Enter to close the browser...'')
                 else bindIO (loginPageProbe loginEnv) (\<lambda>isLoggedInUrl.
                      bindIO (if \<not> isLoggedInUrl then fillLogin loginEnv ''user'' ''hunter2''
                              else ret False)
                        (\<lambda>loginFilled. finish loginEnv loginFilled isLoggedInUrl)))))))) brokenFileWorld
   \<and> main loginEnv freshWorld =
     seqIO (consoleLog [S ''Using credentials from .env (username length:'', N 4, S '')''])
    (seqIO (ensureDirs loginEnv)
    (seqIO (launch loginEnv)
    (seqIO (firstPage loginEnv)
           (guarded loginEnv
              (bindIO (loginPageProbe loginEnv) (\<lambda>isLoggedInUrl.
                 bindIO (if \<not> isLoggedInUrl then fillLogin loginEnv ''user'' ''hunter2''
                         else ret False)
                   (\<lambda>loginFilled. finish loginEnv loginFilled isLoggedInUrl))))))) freshWorld
   \<and> entryProbe loginEnv freshWorld =
       (Ok False, sleep loginEnv 3000
                    (call loginEnv (Goto SALESFORCE_URL ''domcontentloaded'' 30000) freshWorld))
   \<and> fst (loginPageProbe loginEnv freshWorld) = Ok False"
proof -
  have u: "''user'' = trim (envOr (SF_USERNAME loginEnv))"
    by (simp add: loginEnv_def envOr_def trim_def isWhiteSpace_def)
  have p: "''hunter2'' = trim (envOr (SF_PASSWORD loginEnv))"
    by (simp add: loginEnv_def envOr_def trim_def isWhiteSpace_def)
  have c: "''user'' \<noteq> [] \<and> ''hunter2'' \<noteq> []" by simp
  have f: "stateFile brokenFileWorld = Some ''not json''"
    by (simp add: brokenFileWorld_def)
  have e: "(\<forall>w1. readFails loginEnv w1 \<noteq> None) \<or> (\<exists>e. parse loginEnv ''not json'' = Inl e)
      \<or> (\<exists>data. parse loginEnv ''not json'' = Inr data \<and> cookiesOf data = Inr [])"
    by (simp add: loginEnv_def exampleParse_def)
  have a: "stateFile freshWorld = None" by (simp add: freshWorld_def)
  have n: "\<not> isLoggedInSaved (pageUrl loginEnv
      (sleep loginEnv 3000
        (call loginEnv (Goto SALESFORCE_URL ''domcontentloaded'' 30000) freshWorld)))"
    by (simp add: loginEnv_def isLoggedInSaved_def)
  have g: "gotoFails loginEnv (call loginEnv (Goto SALESFORCE_URL ''load'' 60000) freshWorld)
      = None"
    by (simp add: loginEnv_def)
  have i: "\<not> isLoggedInLogin (pageUrl loginEnv
      (sleep loginEnv 5000
        (snd (logDebug loginEnv
                [S ''URL after goto:'',
                 S (pageUrl loginEnv
                      (call loginEnv (Goto SALESFORCE_URL ''load'' 60000) freshWorld))]
                (call loginEnv (Goto SALESFORCE_URL ''load'' 60000) freshWorld)))))"
    by (simp add: loginEnv_def probe_defs)
  have l: "length ''user'' = 4" by simp
  show ?thesis
    using empty_state_file_run [OF u p c f e a refl refl refl refl refl, of freshWorld freshWorld]
      n g i
    unfolding l by simp
qed

text \<open>
  C1 as stated fails. With a browser profile that is still logged in, a run whose state
  file cannot be parsed opens the entry URL waiting for \<open>domcontentloaded\<close>, settles for
  3000 ms, classifies the URL with the test of stages 1 and 2 and stops there; a run
  without a state file opens the entry URL waiting for \<open>load\<close>, settles for 5000 ms,
  classifies with the test of the login page and then opens the dashboard.
\<close>

theorem broken_state_file_differs_from_none:
  "stateFile brokenFileWorld = Some ''not json''
   \<and> parse dashboardEnv ''not json'' = Inl (JsError ''SyntaxError'' ''Unexpected token'')
   \<and> trace (snd (main dashboardEnv brokenFileWorld)) =
       [ConsoleLog [S ''Using credentials from .env (username length:'', N 4, S '')''],
        Mkdir ''/repo/.auth'', Mkdir ''/repo/.auth/browser-profile'', Launch (Some ''chrome''),
        Goto ''https://test.salesforce.com/'' ''domcontentloaded'' 30000, Sleep 3000,
        ConsoleLog [S ''Already logged in.''],
        Close]
   \<and> stateFile freshWorld = None
   \<and> trace (snd (main dashboardEnv freshWorld)) =
       [ConsoleLog [S ''Using credentials from .env (username length:'', N 4, S '')''],
        Mkdir ''/repo/.auth'', Mkdir ''/repo/.auth/browser-profile'', Launch (Some ''chrome''),
        Goto ''https://test.salesforce.com/'' ''load'' 60000, Sleep 5000,
        ConsoleLog [S ''Already logged in. Opening dashboard...''],
        Goto ''https://test.salesforce.com/lightning/page/home'' ''domcontentloaded'' 30000,
        Close]"
  by (simp add: main_defs load_defs probe_defs dashboardEnv_def loginEnv_def
      exampleParse_def brokenFileWorld_def freshWorld_def io_defs Let_def)

section \<open>Who writes the state file\<close>

lemma keepsUnlessI:
  "(\<And>w. stateFile (snd (m w)) = stateFile w \<or> Q (stateFile w)) \<Longrightarrow> keepsUnless Q m"
  by (simp add: keepsUnless_def)

lemma keepsUnlessD:
  "keepsUnless Q m \<Longrightarrow> m w = (r, w1) \<Longrightarrow> stateFile w1 = stateFile w \<or> Q (stateFile w)"
  by (metis keepsUnless_def snd_conv)

lemma keeps_keepsUnless: "keeps m \<Longrightarrow> keepsUnless Q m"
  by (simp add: keeps_def keepsUnless_def)

lemma keepsUnless_bindIO:
  "keepsUnless Q m \<Longrightarrow> (\<And>x. keepsUnless Q (f x)) \<Longrightarrow> keepsUnless Q (bindIO m f)"
proof (rule keepsUnlessI)
  fix w
  assume m: "keepsUnless Q m" and f: "\<And>x. keepsUnless Q (f x)"
  obtain r w1 where mw: "m w = (r, w1)" by (cases "m w")
  have s1: "stateFile w1 = stateFile w \<or> Q (stateFile w)" using keepsUnlessD [OF m mw] .
  show "stateFile (snd (bindIO m f w)) = stateFile w \<or> Q (stateFile w)"
  proof (cases r)
    case (Ok x)
    obtain r2 w2 where fw: "f x w1 = (r2, w2)" by (cases "f x w1")
    have "stateFile w2 = stateFile w1 \<or> Q (stateFile w1)" using keepsUnlessD [OF f fw] .
    with s1 mw Ok fw show ?thesis by (auto simp: bindIO_def)
  next
    case (Throw e)
    with s1 mw show ?thesis by (simp add: bindIO_def)
  next
    case NoReturn
    with s1 mw show ?thesis by (simp add: bindIO_def)
  qed
qed

lemma keepsUnless_seqIO:
  "keepsUnless Q m \<Longrightarrow> keepsUnless Q n \<Longrightarrow> keepsUnless Q (seqIO m n)"
  by (simp add: seqIO_def keepsUnless_bindIO)

lemma stateFile_guarded:
  "stateFile (snd (guarded E body w)) = stateFile (snd (body w))"
proof -
  obtain r w1 where bw: "body w = (r, w1)" by (cases "body w")
  have h: "keeps (seqIO (consoleError [V err]) (setExitCode 1))" for err
    by (intro keeps_seqIO keeps_consoleError keeps_setExitCode)
  obtain r2 w2 where cw: "tryCatch body (\<lambda>err. seqIO (consoleError [V err]) (setExitCode 1)) w
      = (r2, w2)"
    by (cases "tryCatch body (\<lambda>err. seqIO (consoleError [V err]) (setExitCode 1)) w")
  have s2: "stateFile w2 = stateFile w1"
  proof (cases r)
    case (Throw e)
    obtain r3 w3 where hw: "seqIO (consoleError [V e]) (setExitCode 1) w1 = (r3, w3)"
      by (cases "seqIO (consoleError [V e]) (setExitCode 1) w1")
    have "stateFile w3 = stateFile w1" using keepsD [OF h hw] .
    with bw Throw hw cw show ?thesis by (simp add: tryCatch_def)
  next
    case (Ok x)
    with bw cw show ?thesis by (simp add: tryCatch_def)
  next
    case NoReturn
    with bw cw show ?thesis by (simp add: tryCatch_def)
  qed
  obtain r4 w4 where fw: "close E w2 = (r4, w4)" by (cases "close E w2")
  have s4: "stateFile w4 = stateFile w2" using keepsD [OF keeps_close fw] .
  have "stateFile (snd (guarded E body w)) = stateFile w1"
    using cw fw s2 s4 by (cases r2; cases r4) (simp_all add: guarded_def tryFinally_def)
  with bw show ?thesis by simp
qed

lemma keepsUnless_guarded:
  "keepsUnless Q body \<Longrightarrow> keepsUnless Q (guarded E body)"
  by (simp add: keepsUnless_def stateFile_guarded)

lemma flow_unfilled:
  assumes "probe E hasSavedState savedStateData ws = (Ok True, w1)
           \<or> (probe E hasSavedState savedStateData ws = (Ok False, w1)
              \<and> fst (fillLogin E username password w1) = Ok False)"
  shows "stateFile (snd (flow E username password hasSavedState savedStateData ws)) = stateFile ws"
proof -
  have s1: "stateFile w1 = stateFile ws"
    using assms keepsD [OF keeps_probe] by blast
  from assms show ?thesis
  proof
    assume p: "probe E hasSavedState savedStateData ws = (Ok True, w1)"
    have "flow E username password hasSavedState savedStateData ws = finish E False True w1"
      using p by (simp add: flow_def bindIO_def ret_def)
    moreover have "stateFile (snd (finish E False True w1)) = stateFile w1"
      using keeps_finish_unfilled [of E True] by (simp add: keeps_def)
    ultimately show ?thesis using s1 by simp
  next
    assume a: "probe E hasSavedState savedStateData ws = (Ok False, w1)
              \<and> fst (fillLogin E username password w1) = Ok False"
    obtain w2 where f: "fillLogin E username password w1 = (Ok False, w2)"
      using a by (cases "fillLogin E username password w1") auto
    have s2: "stateFile w2 = stateFile w1" using keepsD [OF keeps_fillLogin f] .
    have "flow E username password hasSavedState savedStateData ws = finish E False False w2"
      using a f by (simp add: flow_def bindIO_def)
    moreover have "stateFile (snd (finish E False False w2)) = stateFile w2"
      using keeps_finish_unfilled [of E False] by (simp add: keeps_def)
    ultimately show ?thesis using s1 s2 by simp
  qed
qed

lemma keepsUnless_flow:
  "keepsUnless (filledFrom E username password)
     (flow E username password hasSavedState savedStateData)"
proof (rule keepsUnlessI)
  fix ws
  obtain r w1 where p: "probe E hasSavedState savedStateData ws = (r, w1)"
    by (cases "probe E hasSavedState savedStateData ws")
  have s1: "stateFile w1 = stateFile ws" using keepsD [OF keeps_probe p] .
  obtain r2 w2 where f: "fillLogin E username password w1 = (r2, w2)"
    by (cases "fillLogin E username password w1")
  have s2: "stateFile w2 = stateFile w1" using keepsD [OF keeps_fillLogin f] .
  show "stateFile (snd (flow E username password hasSavedState savedStateData ws)) = stateFile ws
      \<or> filledFrom E username password (stateFile ws)"
  proof (cases r)
    case (Ok isLoggedInUrl)
    show ?thesis
    proof (cases isLoggedInUrl)
      case True
      with p Ok flow_unfilled [of E hasSavedState savedStateData ws w1 username password]
      show ?thesis by simp
    next
      case False
      show ?thesis
      proof (cases r2)
        case ok2: (Ok loginFilled)
        show ?thesis
        proof (cases loginFilled)
          case True
          from p Ok False have "probe E hasSavedState savedStateData ws = (Ok False, w1)"
            by simp
          moreover from f ok2 True have "fillLogin E username password w1 = (Ok True, w2)"
            by simp
          ultimately have "filledFrom E username password (stateFile ws)"
            unfolding filledFrom_def by blast
          then show ?thesis by simp
        next
          case nf: False
          with p Ok False f ok2
            flow_unfilled [of E hasSavedState savedStateData ws w1 username password]
          show ?thesis by simp
        qed
      next
        case (Throw e)
        with p Ok False f s1 s2 show ?thesis by (simp add: flow_def bindIO_def)
      next
        case NoReturn
        with p Ok False f s1 s2 show ?thesis by (simp add: flow_def bindIO_def)
      qed
    qed
  next
    case (Throw e)
    with p s1 show ?thesis by (simp add: flow_def bindIO_def)
  next
    case NoReturn
    with p s1 show ?thesis by (simp add: flow_def bindIO_def)
  qed
qed

lemma keepsUnless_session:
  "keepsUnless (filledFrom E username password) (session E username password)"
  unfolding session_def
proof (intro keepsUnless_bindIO keepsUnless_seqIO keepsUnless_guarded keepsUnless_flow)
  show "keepsUnless (filledFrom E username password) (\<lambda>w. (Ok (stateFile w \<noteq> None), w))"
    by (simp add: keepsUnless_def)
  show "keepsUnless (filledFrom E username password) (launch E)"
    by (rule keeps_keepsUnless [OF keeps_launch])
  show "keepsUnless (filledFrom E username password) (loadSavedState E x)" for x
    by (rule keeps_keepsUnless [OF keeps_loadSavedState])
  show "keepsUnless (filledFrom E username password) (firstPage E)"
    by (rule keeps_keepsUnless [OF keeps_firstPage])
qed

lemma keepsUnless_main:
  "keepsUnless (filledFrom E (trim (envOr (SF_USERNAME E))) (trim (envOr (SF_PASSWORD E))))
     (main E)"
proof -
  let ?Q = "filledFrom E (trim (envOr (SF_USERNAME E))) (trim (envOr (SF_PASSWORD E)))"
  have a: "keepsUnless ?Q
      (seqIO (consoleError [S ''Set SF_USERNAME and SF_PASSWORD in .env (in the project root).''])
        (seqIO (consoleError [S ''Current .env lookup: project root ='', S (projectRoot E)])
               (processExit 1)))"
    by (intro keeps_keepsUnless keeps_seqIO keeps_consoleError keeps_processExit)
  have b: "keepsUnless ?Q
      (seqIO (consoleLog [S ''Using credentials from .env (username length:'',
                          N (length (trim (envOr (SF_USERNAME E)))), S '')''])
        (seqIO (ensureDirs E)
               (session E (trim (envOr (SF_USERNAME E))) (trim (envOr (SF_PASSWORD E))))))"
    by (intro keepsUnless_seqIO keepsUnless_session keeps_keepsUnless [OF keeps_consoleLog]
        keeps_keepsUnless [OF keeps_ensureDirs])
  show ?thesis
  proof (cases "trim (envOr (SF_USERNAME E)) = [] \<or> trim (envOr (SF_PASSWORD E)) = []")
    case True
    then have "main E =
        seqIO (consoleError [S ''Set SF_USERNAME and SF_PASSWORD in .env (in the project root).''])
          (seqIO (consoleError [S ''Current .env lookup: project root ='', S (projectRoot E)])
                 (processExit 1))"
      unfolding main_def Let_def by (simp only: if_True)
    with a show ?thesis by (simp only:)
  next
    case False
    then have "main E =
        seqIO (consoleLog [S ''Using credentials from .env (username length:'',
                           N (length (trim (envOr (SF_USERNAME E)))), S '')''])
          (seqIO (ensureDirs E)
                 (session E (trim (envOr (SF_USERNAME E))) (trim (envOr (SF_PASSWORD E)))))"
      unfolding main_def Let_def by (simp only: if_False)
    with b show ?thesis by (simp only:)
  qed
qed

text \<open>
  C9. The state file is written only when \<open>loginFilled\<close> is true. When the probe classifies
  the session as logged in, or when it does not and the three passes are all not done (so
  that \<open>fillLogin\<close> returns false), the guarded flow leaves the state file as it was. And
  whenever a whole run of \<open>main\<close> changes the state file, the run has come, with the file
  still as it was, through a probe that said "not logged in" and then through a
  \<open>fillLogin\<close> that returned true.
\<close>

theorem state_file_written_only_when_filled:
  "(probe E hasSavedState savedStateData ws = (Ok True, w1) \<longrightarrow>
      stateFile (snd (guarded E (flow E username password hasSavedState savedStateData) ws))
        = stateFile ws)
   \<and> (probe E hasSavedState savedStateData ws = (Ok False, w1)
        \<and> fst (fillLogin E username password w1) = Ok False \<longrightarrow>
      stateFile (snd (guarded E (flow E username password hasSavedState savedStateData) ws))
        = stateFile ws)
   \<and> (stateFile (snd (main E w)) \<noteq> stateFile w \<longrightarrow>
        (\<exists>h sd ws' w1' w2'.
           stateFile ws' = stateFile w
           \<and> probe E h sd ws' = (Ok False, w1')
           \<and> fillLogin E (trim (envOr (SF_USERNAME E))) (trim (envOr (SF_PASSWORD E))) w1'
               = (Ok True, w2')))"
proof (intro conjI impI)
  assume p: "probe E hasSavedState savedStateData ws = (Ok True, w1)"
  then show "stateFile (snd (guarded E (flow E username password hasSavedState savedStateData) ws))
      = stateFile ws"
    using flow_unfilled [of E hasSavedState savedStateData ws w1 username password]
    by (simp add: stateFile_guarded)
next
  assume a: "probe E hasSavedState savedStateData ws = (Ok False, w1)
        \<and> fst (fillLogin E username password w1) = Ok False"
  then show "stateFile (snd (guarded E (flow E username password hasSavedState savedStateData) ws))
      = stateFile ws"
    using flow_unfilled [of E hasSavedState savedStateData ws w1 username password]
    by (simp add: stateFile_guarded)
next
  assume "stateFile (snd (main E w)) \<noteq> stateFile w"
  then have "filledFrom E (trim (envOr (SF_USERNAME E))) (trim (envOr (SF_PASSWORD E)))
      (stateFile w)"
    using keepsUnless_main [of E] by (auto simp: keepsUnless_def)
  then show "\<exists>h sd ws' w1' w2'.
           stateFile ws' = stateFile w
           \<and> probe E h sd ws' = (Ok False, w1')
           \<and> fillLogin E (trim (envOr (SF_USERNAME E))) (trim (envOr (SF_PASSWORD E))) w1'
               = (Ok True, w2')"
    unfolding filledFrom_def by blast
qed

theorem state_file_written_only_when_filled_witness:
  "stateFile (snd (guarded dashboardEnv (flow dashboardEnv ''user'' ''hunter2'' False None)
                    freshWorld)) = stateFile freshWorld
   \<and> stateFile (snd (guarded blankEnv (flow blankEnv ''user'' ''hunter2'' False None)
                      freshWorld)) = stateFile freshWorld
   \<and> (\<exists>h sd ws' w1' w2'.
         stateFile ws' = stateFile freshWorld
         \<and> probe loginEnv h sd ws' = (Ok False, w1')
         \<and> fillLogin loginEnv (trim (envOr (SF_USERNAME loginEnv)))
              (trim (envOr (SF_PASSWORD loginEnv))) w1' = (Ok True, w2'))"
proof -
  have a: "fst (probe dashboardEnv False None freshWorld) = Ok True"
    by (simp add: probe_defs dashboardEnv_def loginEnv_def freshWorld_def io_defs Let_def)
  have b: "fst (probe blankEnv False None freshWorld) = Ok False"
    by (simp add: probe_defs blankEnv_def loginEnv_def freshWorld_def io_defs Let_def)
  have c: "fst (fillLogin blankEnv ''user'' ''hunter2''
      (snd (probe blankEnv False None freshWorld))) = Ok False"
    by (simp add: probe_defs fill_defs blankEnv_def loginEnv_def blankDocument_def freshWorld_def
        io_defs Let_def)
  have d: "stateFile (snd (main loginEnv freshWorld)) = Some ''{}''"
    by (simp add: main_defs probe_defs fill_defs loginEnv_def loginDocument_def freshWorld_def
        io_defs Let_def)
  have e: "stateFile freshWorld = None"
    by (simp add: freshWorld_def)
  have a': "probe dashboardEnv False None freshWorld
      = (Ok True, snd (probe dashboardEnv False None freshWorld))"
    using a by (cases "probe dashboardEnv False None freshWorld") simp
  have b': "probe blankEnv False None freshWorld
      = (Ok False, snd (probe blankEnv False None freshWorld))"
    using b by (cases "probe blankEnv False None freshWorld") simp
  show ?thesis
    using state_file_written_only_when_filled
        [of dashboardEnv False None freshWorld "snd (probe dashboardEnv False None freshWorld)"
          "''user''" "''hunter2''"]
      state_file_written_only_when_filled
        [of blankEnv False None freshWorld "snd (probe blankEnv False None freshWorld)"
          "''user''" "''hunter2''" freshWorld]
      state_file_written_only_when_filled
        [of loginEnv False None freshWorld freshWorld "''user''" "''hunter2''" freshWorld]
      a' b' c d e
    by simp
qed

section \<open>Cleanup\<close>

text \<open>
  Inside the \<open>try\<close> block the cleanup is guaranteed: whenever the body returns or throws,
  the context is closed last; and when the body throws, the error is written to the error
  console and the exit code is set to 1 before that.
\<close>

lemma guarded_cleans_up:
  "(fst (body w) \<noteq> NoReturn \<longrightarrow>
      fst (guarded E body w) = Ok ()
      \<and> \<not> contextOpen (snd (guarded E body w))
      \<and> last (trace (snd (guarded E body w))) = Close)
   \<and> (body w = (Throw e, w1) \<longrightarrow>
      trace (snd (guarded E body w)) = trace w1 @ [ConsoleError [V e], Close]
      \<and> exitCode (snd (guarded E body w)) = 1)
   \<and> (body w = (Ok (), w1) \<longrightarrow>
      trace (snd (guarded E body w)) = trace w1 @ [Close]
      \<and> exitCode (snd (guarded E body w)) = exitCode w1)"
proof -
  obtain r w' where bw: "body w = (r, w')" by (cases "body w")
  show ?thesis
    using bw
    by (cases r)
       (simp_all add: guarded_def tryFinally_def tryCatch_def seqIO_def bindIO_def
        consoleError_def setExitCode_def close_def call_def emit_def Let_def)
qed

text \<open>
  C8 holds inside the \<open>try\<close> block only. \<open>addCookies\<close> (line 113) and \<open>newPage\<close> (line 119)
  run after the context has been opened and before the \<open>try\<close> block: when the context
  rejects the cookies of the state file, \<open>main\<close> is rejected with that error and the context
  stays open, since \<open>context.close()\<close> is never called. The \<open>catch\<close> block does not run
  either, so \<open>main\<close> itself writes nothing to the error console and does not set the exit
  code; what is printed and the exit status are then left to the handling of the rejected
  promise of line 297 by the run time.
\<close>

theorem rejected_cookies_leave_context_open:
  "fst (main badCookieEnv badCookieWorld)
     = Throw (JsError ''Error'' ''cookies[0].value: expected string, got undefined'')
   \<and> contextOpen (snd (main badCookieEnv badCookieWorld))
   \<and> exitCode (snd (main badCookieEnv badCookieWorld)) = 0
   \<and> trace (snd (main badCookieEnv badCookieWorld)) =
       [ConsoleLog [S ''Using credentials from .env (username length:'', N 4, S '')''],
        Mkdir ''/repo/.auth'', Mkdir ''/repo/.auth/browser-profile'',
        Launch (Some ''chrome''),
        AddCookies [JObj [(''name'', JStr ''sid'')]]]"
  by (simp add: main_defs load_defs badCookieEnv_def badCookieWorld_def loginEnv_def
      exampleParse_def freshWorld_def io_defs Let_def)

section \<open>What is written to the console\<close>

text \<open>Whatever the surroundings, \<open>fillLogin\<close> starts by logging the password itself.\<close>

lemma fillLogin_logs_password:
  "\<exists>ext. trace (snd (fillLogin E username password w)) =
     trace w @ ConsoleLog [S ''Entering credentials in UI: username'', S username,
                           S ''password'', S password] # ext"
proof -
  let ?line = "ConsoleLog [S ''Entering credentials in UI: username'', S username,
                           S ''password'', S password]"
  let ?w0 = "emit ?line w"
  have t0: "trace ?w0 = trace w @ [?line]" by (simp add: emit_def)
  obtain b1 w1 x1 where r1: "sessionFramePass E username password 35000 (clock ?w0) ?w0
      = (Ok b1, w1)" and t1: "trace w1 = trace ?w0 @ x1"
    using sessionFramePass_run [of E username password 35000 "clock ?w0" ?w0]
    by (blast dest: goesTo_trace)
  obtain b2 w2 x2 where r2: "mainFramePass E username password w1 = (Ok b2, w2)"
    and t2: "trace w2 = trace w1 @ x2"
    using mainFramePass_run [of E username password w1]
    by (blast dest: goesTo_trace)
  obtain b3 w3 x3 where r3: "otherFramesPass E username password (pageFrames E w2) w2
      = (Ok b3, w3)" and t3: "trace w3 = trace w2 @ x3"
    using otherFramesPass_run [of E username password "pageFrames E w2" w2]
    by (blast dest: goesTo_trace)
  have "snd (fillLogin E username password w) = (if b1 then w1 else if b2 then w2 else w3)"
    using r1 r2 r3
    by (cases b1; cases b2)
       (simp_all add: fillLogin_def seqIO_def bindIO_def consoleLog_def ret_def)
  moreover have "trace w1 = trace w @ ?line # x1" using t0 t1 by simp
  moreover have "trace w2 = trace w @ ?line # (x1 @ x2)" using t0 t1 t2 by simp
  moreover have "trace w3 = trace w @ ?line # (x1 @ x2 @ x3)" using t0 t1 t2 t3 by simp
  ultimately show ?thesis by (cases b1; cases b2) simp_all
qed

lemma first_run_console:
  assumes "pw \<noteq> []" and "dropWhile isWhiteSpace pw = pw"
    and "dropWhile isWhiteSpace (rev pw) = rev pw"
  shows "consoleOf (trace (snd (main (loginEnv\<lparr>SF_PASSWORD := Some pw\<rparr>) freshWorld))) =
     [ConsoleLog [S ''Using credentials from .env (username length:'', N 4, S '')''],
      ConsoleLog [S ''Entering credentials in UI: username'', S ''user'', S ''password'', S pw],
      ConsoleLog [S ''Credentials entered from .env. Waiting for next page...''],
      ConsoleLog [S ''Session saved to'', S ''/repo/.auth/salesforce-auth.json'']]"
  using assms
  by (simp add: main_defs probe_defs fill_defs loginEnv_def loginDocument_def freshWorld_def
      io_defs Let_def)

text \<open>
  C7 fails on the code. Two first runs that differ only in the password, both passwords
  seven characters long, write different console output: line 213 logs the password
  itself, while line 64 logs only the length of the user name.
\<close>

theorem password_is_logged:
  "consoleOf (trace (snd (main loginEnv freshWorld))) =
     [ConsoleLog [S ''Using credentials from .env (username length:'', N 4, S '')''],
      ConsoleLog [S ''Entering credentials in UI: username'', S ''user'',
                  S ''password'', S ''hunter2''],
      ConsoleLog [S ''Credentials entered from .env. Waiting for next page...''],
      ConsoleLog [S ''Session saved to'', S ''/repo/.auth/salesforce-auth.json'']]
   \<and> consoleOf (trace (snd (main otherPasswordEnv freshWorld))) =
     [ConsoleLog [S ''Using credentials from .env (username length:'', N 4, S '')''],
      ConsoleLog [S ''Entering credentials in UI: username'', S ''user'',
                  S ''password'', S ''sesame7''],
      ConsoleLog [S ''Credentials entered from .env. Waiting for next page...''],
      ConsoleLog [S ''Session saved to'', S ''/repo/.auth/salesforce-auth.json'']]
   \<and> otherPasswordEnv = loginEnv\<lparr>SF_PASSWORD := Some ''sesame7''\<rparr>
   \<and> SF_PASSWORD loginEnv = Some ''hunter2''"
proof -
  have same: "loginEnv\<lparr>SF_PASSWORD := Some ''hunter2''\<rparr> = loginEnv"
    by (simp add: loginEnv_def)
  have a: "consoleOf (trace (snd (main (loginEnv\<lparr>SF_PASSWORD := Some ''hunter2''\<rparr>) freshWorld))) =
     [ConsoleLog [S ''Using credentials from .env (username length:'', N 4, S '')''],
      ConsoleLog [S ''Entering credentials in UI: username'', S ''user'',
                  S ''password'', S ''hunter2''],
      ConsoleLog [S ''Credentials entered from .env. Waiting for next page...''],
      ConsoleLog [S ''Session saved to'', S ''/repo/.auth/salesforce-auth.json'']]"
    by (rule first_run_console) (simp_all add: isWhiteSpace_def)
  have b: "consoleOf (trace (snd (main (loginEnv\<lparr>SF_PASSWORD := Some ''sesame7''\<rparr>) freshWorld))) =
     [ConsoleLog [S ''Using credentials from .env (username length:'', N 4, S '')''],
      ConsoleLog [S ''Entering credentials in UI: username'', S ''user'',
                  S ''password'', S ''sesame7''],
      ConsoleLog [S ''Credentials entered from .env. Waiting for next page...''],
      ConsoleLog [S ''Session saved to'', S ''/repo/.auth/salesforce-auth.json'']]"
    by (rule first_run_console) (simp_all add: isWhiteSpace_def)
  show ?thesis
    using a b unfolding same by (simp add: otherPasswordEnv_def loginEnv_def)
qed

end
